theory Spec2Isabelle
  imports Complex_Main
begin

section \<open>Double-precision values\<close>

text \<open>
  The estimator computes with C++ \<^verbatim>\<open>double\<close>, the binary64 format of IEEE 754.  A double
  is modelled as a finite real or one of the three special values.  The special values
  follow IEEE 754 (an infinity absorbs finite summands, \<open>inf - inf\<close>, \<open>0 * inf\<close>,
  \<open>inf / inf\<close> and \<open>0 / 0\<close> are NaN, every comparison with NaN is false).  The sign of
  zero is not modelled.

  Every operation on finite values returns the exact real result rounded to the nearest
  double, ties to even, as the default rounding mode does: a result whose rounded
  magnitude reaches \<open>2 ^ 1024\<close> overflows to an infinity, a result below the normal range
  is rounded on the fixed grid of the subnormal numbers and may underflow to zero.  The
  type admits every real as a finite value; the operations only ever return doubles.
\<close>

datatype double = Fin real | PInf | NInf | NaN

text \<open>Rounding of a real to the nearest integer, ties to the even one.\<close>

definition rne :: "real \<Rightarrow> int" where
  "rne q = (let f = \<lfloor>q\<rfloor> in
            if q - of_int f < 1 / 2 then f
            else if 1 / 2 < q - of_int f then f + 1
            else if even f then f else f + 1)"

text \<open>
  The binary exponent of a positive real, held at \<open>- 1022\<close> below the normal range, and
  the spacing of the doubles around it: 53 significant bits.
\<close>

definition expo :: "real \<Rightarrow> int" where
  "expo x = max \<lfloor>log 2 x\<rfloor> (- 1022)"

definition ulp :: "real \<Rightarrow> real" where
  "ulp x = 2 powr of_int (expo x - 52)"

definition nearest :: "real \<Rightarrow> real" where
  "nearest x = of_int (rne (x / ulp x)) * ulp x"

text \<open>Rounding of a positive real, and of any real by symmetry.\<close>

definition rnd_pos :: "real \<Rightarrow> double" where
  "rnd_pos x = (if 2 ^ 1024 \<le> nearest x then PInf else Fin (nearest x))"

definition rnd :: "real \<Rightarrow> double" where
  "rnd x = (if x = 0 then Fin 0
            else if 0 < x then rnd_pos x
            else (case rnd_pos (- x) of PInf \<Rightarrow> NInf | Fin y \<Rightarrow> Fin (- y) | d \<Rightarrow> d))"

instantiation double :: "{zero,one,plus,minus,uminus,times,inverse,ord}"
begin

definition zero_double :: double where
  "zero_double = Fin 0"

definition one_double :: double where
  "one_double = Fin 1"

fun plus_double :: "double \<Rightarrow> double \<Rightarrow> double" where
  "plus_double (Fin a) (Fin b) = rnd (a + b)"
| "plus_double NaN y = NaN"
| "plus_double x NaN = NaN"
| "plus_double PInf NInf = NaN"
| "plus_double NInf PInf = NaN"
| "plus_double PInf y = PInf"
| "plus_double x PInf = PInf"
| "plus_double NInf y = NInf"
| "plus_double x NInf = NInf"

fun uminus_double :: "double \<Rightarrow> double" where
  "uminus_double (Fin a) = Fin (- a)"
| "uminus_double PInf = NInf"
| "uminus_double NInf = PInf"
| "uminus_double NaN = NaN"

definition minus_double :: "double \<Rightarrow> double \<Rightarrow> double" where
  "minus_double x y = x + (- y)"

fun times_double :: "double \<Rightarrow> double \<Rightarrow> double" where
  "times_double (Fin a) (Fin b) = rnd (a * b)"
| "times_double NaN y = NaN"
| "times_double x NaN = NaN"
| "times_double PInf (Fin b) = (if b = 0 then NaN else if 0 < b then PInf else NInf)"
| "times_double NInf (Fin b) = (if b = 0 then NaN else if 0 < b then NInf else PInf)"
| "times_double (Fin a) PInf = (if a = 0 then NaN else if 0 < a then PInf else NInf)"
| "times_double (Fin a) NInf = (if a = 0 then NaN else if 0 < a then NInf else PInf)"
| "times_double PInf PInf = PInf"
| "times_double PInf NInf = NInf"
| "times_double NInf PInf = NInf"
| "times_double NInf NInf = PInf"

fun divide_double :: "double \<Rightarrow> double \<Rightarrow> double" where
  "divide_double (Fin a) (Fin b) =
     (if b = 0 then (if a = 0 then NaN else if 0 < a then PInf else NInf) else rnd (a / b))"
| "divide_double NaN y = NaN"
| "divide_double x NaN = NaN"
| "divide_double (Fin a) PInf = Fin 0"
| "divide_double (Fin a) NInf = Fin 0"
| "divide_double PInf (Fin b) = (if 0 \<le> b then PInf else NInf)"
| "divide_double NInf (Fin b) = (if 0 \<le> b then NInf else PInf)"
| "divide_double PInf PInf = NaN"
| "divide_double PInf NInf = NaN"
| "divide_double NInf PInf = NaN"
| "divide_double NInf NInf = NaN"

fun inverse_double :: "double \<Rightarrow> double" where
  "inverse_double (Fin b) = (if b = 0 then PInf else rnd (1 / b))"
| "inverse_double PInf = Fin 0"
| "inverse_double NInf = Fin 0"
| "inverse_double NaN = NaN"

fun less_double :: "double \<Rightarrow> double \<Rightarrow> bool" where
  "less_double (Fin a) (Fin b) = (a < b)"
| "less_double NaN y = False"
| "less_double x NaN = False"
| "less_double x NInf = False"
| "less_double PInf y = False"
| "less_double NInf y = True"
| "less_double x PInf = True"

fun less_eq_double :: "double \<Rightarrow> double \<Rightarrow> bool" where
  "less_eq_double (Fin a) (Fin b) = (a \<le> b)"
| "less_eq_double NaN y = False"
| "less_eq_double x NaN = False"
| "less_eq_double NInf y = True"
| "less_eq_double x PInf = True"
| "less_eq_double x NInf = False"
| "less_eq_double PInf y = False"

instance ..

end

text \<open>The C++ \<^verbatim>\<open>==\<close> on doubles: NaN is equal to nothing, itself included.\<close>

fun deq :: "double \<Rightarrow> double \<Rightarrow> bool" where
  "deq (Fin a) (Fin b) = (a = b)"
| "deq PInf PInf = True"
| "deq NInf NInf = True"
| "deq x y = False"

text \<open>\<^verbatim>\<open>std::isinf\<close>.\<close>

fun disinf :: "double \<Rightarrow> bool" where
  "disinf PInf = True"
| "disinf NInf = True"
| "disinf x = False"

text \<open>
  A finite double: a finite value that rounding leaves unchanged, which singles out the
  reals that are doubles.
\<close>

fun is_finite :: "double \<Rightarrow> bool" where
  "is_finite (Fin a) = (rnd a = Fin a)"
| "is_finite x = False"

text \<open>
  The functions of the C mathematical library are taken as correctly rounded: each
  returns the rounding of the exact real result.  The library itself promises an error
  below one unit in the last place only, so its last bit may differ from the value here.
  \<^verbatim>\<open>exp\<close> overflows to infinity and underflows to zero through the rounding.
\<close>

fun dexp :: "double \<Rightarrow> double" where
  "dexp (Fin x) = rnd (exp x)"
| "dexp PInf = PInf"
| "dexp NInf = Fin 0"
| "dexp NaN = NaN"

text \<open>\<^verbatim>\<open>log\<close>: the natural logarithm, minus infinity at zero, NaN below.\<close>

fun dlog :: "double \<Rightarrow> double" where
  "dlog (Fin x) = (if 0 < x then rnd (ln x) else if x = 0 then NInf else NaN)"
| "dlog PInf = PInf"
| "dlog NInf = NaN"
| "dlog NaN = NaN"

text \<open>\<^verbatim>\<open>std::pow(x, 2.0)\<close> and \<^verbatim>\<open>std::pow(x, 0.5)\<close>, the two powers the estimator takes
  of a variable.\<close>

definition dpow2 :: "double \<Rightarrow> double" where
  "dpow2 x = x * x"

fun dpow_half :: "double \<Rightarrow> double" where
  "dpow_half (Fin x) = (if 0 \<le> x then rnd (sqrt x) else NaN)"
| "dpow_half PInf = PInf"
| "dpow_half NInf = PInf"
| "dpow_half NaN = NaN"

text \<open>The conversion of an \<^verbatim>\<open>int\<close> to \<^verbatim>\<open>double\<close>, exact for 32-bit integers.\<close>

definition double_of_int :: "int \<Rightarrow> double" where
  "double_of_int i = rnd (of_int i)"

text \<open>
  \<^verbatim>\<open>std::pow\<close> on a positive finite base and a finite exponent, the only arguments the
  estimator gives it besides the two powers above; it is NaN here on every other
  argument.  The clamping constant is computed with it:
  \<^verbatim>\<open>eps = std::pow(2.0, -52.0); eps = std::pow(eps, 1.0/3.0);\<close>
\<close>

fun dpow_pos :: "double \<Rightarrow> double \<Rightarrow> double" where
  "dpow_pos (Fin a) (Fin b) = (if 0 < a then rnd (a powr b) else NaN)"
| "dpow_pos x y = NaN"

definition eps :: double where
  "eps = dpow_pos (dpow_pos (Fin 2) (Fin (- 52))) (Fin 1 / Fin 3)"

text \<open>The real value of a finite double.\<close>

fun dval :: "double \<Rightarrow> real" where
  "dval (Fin a) = a"
| "dval x = 0"


section \<open>Errors and checked access\<close>

text \<open>
  The exceptions of the source: \<^verbatim>\<open>std::domain_error\<close> with its message, and the
  \<^verbatim>\<open>std::out_of_range\<close> that \<^verbatim>\<open>std::vector::at\<close> throws.
\<close>

datatype error = DomainError string | OutOfRange

fun bindE :: "error + 'a \<Rightarrow> ('a \<Rightarrow> error + 'b) \<Rightarrow> error + 'b" where
  "bindE (Inl e) f = Inl e"
| "bindE (Inr v) f = f v"

text \<open>
  \<^verbatim>\<open>v.at(i)\<close>.  Item ids and answers are \<^verbatim>\<open>int\<close> in the row vectors and are cast to
  \<^verbatim>\<open>size_t\<close> at the calls; a negative int becomes a \<^verbatim>\<open>size_t\<close> of at least
  \<open>2 ^ 63\<close>, beyond the size of any vector.  An index is therefore modelled as an
  integer, and a negative index is out of range.
\<close>

definition vec_at :: "'a list \<Rightarrow> int \<Rightarrow> error + 'a" where
  "vec_at xs i = (if 0 \<le> i \<and> i < int (length xs) then Inr (xs ! nat i) else Inl OutOfRange)"


section \<open>The data model\<close>

text \<open>
  Modelled from the spec: the declarations of \<^verbatim>\<open>QuestionSet\<close> and \<^verbatim>\<open>Prior\<close>, whose headers
  are not among the sources.  The fields are those that section 3 of the specification
  lists, at the types the estimator uses them at: the parameter arrays are vectors of
  \<^verbatim>\<open>double\<close>, \<open>answers\<close> and the two row sets are vectors of \<^verbatim>\<open>int\<close>.  Of the prior only
  the two parameters are read by the functions below.

  The answers are 32-bit integers in the source and integers here.  Where the source
  computes \<open>answer - 1\<close> or \<open>1 - answer\<close> on an \<^verbatim>\<open>int\<close>, the result is wrapped to 32 bits
  as the compiled code wraps it, which changes it at the sentinel only; where the source
  casts the answer to \<^verbatim>\<open>size_t\<close> before it subtracts, the difference is an index beyond
  every vector whenever the answer is below 1, as a negative index is here.
\<close>

record questionSet =
  model :: string
  discrimination :: "double list"
  difficulty :: "double list list"
  guessing :: "double list"
  answers :: "int list"
  applicable_rows :: "int list"
  nonapplicable_rows :: "int list"
  question_names :: "string list"
  lowerBound :: double
  upperBound :: double
  z :: "double list"

record prior =
  param0 :: double
  param1 :: double

text \<open>\<^verbatim>\<open>NA_INTEGER\<close>, R's missing-integer sentinel: the smallest 32-bit integer.\<close>

definition NA_INTEGER :: int where
  "NA_INTEGER = - 2147483648"

text \<open>The value of an \<^verbatim>\<open>int\<close> expression: the integer modulo \<open>2 ^ 32\<close>, in the signed range.\<close>

definition wrap32 :: "int \<Rightarrow> int" where
  "wrap32 i = (i + 2147483648) mod 4294967296 - 2147483648"


section \<open>Probability models\<close>

definition prob_ltm :: "questionSet \<Rightarrow> double \<Rightarrow> int \<Rightarrow> error + double" where
  "prob_ltm qs theta question =
     bindE (vec_at (difficulty qs) question) (\<lambda>dv.
     bindE (vec_at dv 0) (\<lambda>diff.
     bindE (vec_at (discrimination qs) question) (\<lambda>disc.
       let exp_prob_bi = dexp (diff + disc * theta) in
       if disinf exp_prob_bi then Inr (1 - eps)
       else
         bindE (vec_at (guessing qs) question) (\<lambda>guess.
           let result = guess + (1 - guess) * (exp_prob_bi / (1 + exp_prob_bi)) in
           Inr (if 1 - eps < result then 1 - eps
                else if result < eps then eps
                else result)))))"

text \<open>The lambda \<^verbatim>\<open>calculate\<close> of \<^verbatim>\<open>prob_grm\<close>, with the two values it captures.\<close>

definition calculate :: "double \<Rightarrow> double \<Rightarrow> double \<Rightarrow> double" where
  "calculate disc theta diff =
     (let exp_prob = dexp (diff - disc * theta);
          result = exp_prob / (1 + exp_prob);
          result = (if disinf exp_prob then 1 - eps else result);
          result = (if 1 - eps < result then 1 - eps else result);
          result = (if result < eps then eps else result)
      in result)"

text \<open>\<^verbatim>\<open>std::adjacent_find(b, e) != e\<close>: two neighbours compare equal.\<close>

fun adjacent_find :: "double list \<Rightarrow> bool" where
  "adjacent_find (x # y # xs) = (deq x y \<or> adjacent_find (y # xs))"
| "adjacent_find xs = False"

definition theta_too_extreme :: error where
  "theta_too_extreme = DomainError ''Theta value too extreme for numerical routines.''"

definition prob_grm :: "questionSet \<Rightarrow> double \<Rightarrow> int \<Rightarrow> error + double list" where
  "prob_grm qs theta question =
     bindE (vec_at (discrimination qs) question) (\<lambda>disc.
     bindE (vec_at (difficulty qs) question) (\<lambda>terms.
       let probabilities = [0] @ map (calculate disc theta) terms @ [1] in
       if adjacent_find probabilities then Inl theta_too_extreme
       else Inr probabilities))"

text \<open>
  The accumulation loop of \<^verbatim>\<open>prob_gpcm\<close> over the category parameters: the running
  exponent \<open>sum\<close> (here \<open>csum\<close>), the running \<open>denominator\<close> and the masses pushed so far.
\<close>

fun gpcm_loop ::
  "double \<Rightarrow> double \<Rightarrow> double list \<Rightarrow> double \<Rightarrow> double \<Rightarrow> double list \<Rightarrow> double \<times> double list" where
  "gpcm_loop disc theta [] csum denominator probabilities = (denominator, probabilities)"
| "gpcm_loop disc theta (cat # cats) csum denominator probabilities =
     (let csum = csum + disc * (theta - cat);
          num = dexp csum
      in gpcm_loop disc theta cats csum (denominator + num) (probabilities @ [num]))"

definition prob_gpcm :: "questionSet \<Rightarrow> double \<Rightarrow> int \<Rightarrow> error + double list" where
  "prob_gpcm qs theta question =
     bindE (vec_at (discrimination qs) question) (\<lambda>disc.
     bindE (vec_at (difficulty qs) question) (\<lambda>categoryparams.
       let csum = disc * theta;
           denominator = dexp csum;
           (denominator, probabilities) =
             gpcm_loop disc theta categoryparams csum denominator [denominator]
       in
         if deq denominator 0 \<or> disinf denominator then Inl theta_too_extreme
         else Inr (map (\<lambda>prob. prob / denominator) probabilities)))"

definition bad_question :: error where
  "bad_question = DomainError ''Must use a question number applicable to Cat object.''"

text \<open>
  The guard compares a \<^verbatim>\<open>size_t\<close>: an id that was negative as an \<^verbatim>\<open>int\<close> is larger
  than the size of \<open>answers\<close> once cast.
\<close>

definition probability :: "questionSet \<Rightarrow> double \<Rightarrow> int \<Rightarrow> error + double list" where
  "probability qs theta question =
     (if question < 0 \<or> int (length (answers qs)) < question then Inl bad_question
      else if model qs = ''grm'' then prob_grm qs theta question
      else if model qs = ''gpcm'' then prob_gpcm qs theta question
      else if model qs = ''ltm'' \<or> model qs = ''tpm'' then
        bindE (prob_ltm qs theta question) (\<lambda>p. Inr [p])
      else Inr [])"

section \<open>Likelihood\<close>

text \<open>
  Every loop over \<open>applicable_rows\<close> in the estimator has the shape
  \<^verbatim>\<open>for (auto q : rows) acc += term(q);\<close> where the term may throw.
\<close>

fun accumulate :: "('a \<Rightarrow> error + double) \<Rightarrow> 'a list \<Rightarrow> double \<Rightarrow> error + double" where
  "accumulate f [] acc = Inr acc"
| "accumulate f (q # rows) acc = bindE (f q) (\<lambda>v. accumulate f rows (acc + v))"

definition likelihood_grm :: "questionSet \<Rightarrow> double \<Rightarrow> error + double" where
  "likelihood_grm qs theta =
     bindE (accumulate (\<lambda>question.
              bindE (vec_at (answers qs) question) (\<lambda>answer.
              bindE (probability qs theta question) (\<lambda>question_cdf.
              bindE (vec_at question_cdf answer) (\<lambda>hi.
              bindE (vec_at question_cdf (answer - 1)) (\<lambda>lo.
                Inr (dlog (hi - lo)))))))
            (applicable_rows qs) 0)
       (\<lambda>L. Inr (dexp L))"

definition likelihood_gpcm :: "questionSet \<Rightarrow> double \<Rightarrow> error + double" where
  "likelihood_gpcm qs theta =
     bindE (accumulate (\<lambda>question.
              bindE (vec_at (answers qs) question) (\<lambda>answer.
              bindE (probability qs theta question) (\<lambda>probs.
                let answer = wrap32 (answer - 1) in
                bindE (vec_at probs answer) (\<lambda>p. Inr (dlog p)))))
            (applicable_rows qs) 0)
       (\<lambda>L. Inr (dexp L))"

definition likelihood_ltm :: "questionSet \<Rightarrow> double \<Rightarrow> error + double" where
  "likelihood_ltm qs theta =
     bindE (accumulate (\<lambda>question.
              bindE (prob_ltm qs theta question) (\<lambda>prob.
              bindE (vec_at (answers qs) question) (\<lambda>this_answer.
                Inr (double_of_int this_answer * dlog prob
                     + double_of_int (wrap32 (1 - this_answer)) * dlog (1 - prob)))))
            (applicable_rows qs) 0)
       (\<lambda>L. Inr (dexp L))"

text \<open>
  The dispatchers test the model tag with consecutive \<^verbatim>\<open>if\<close>s; the tags exclude
  one another, so the chain below takes the same branch.
\<close>

definition likelihood :: "questionSet \<Rightarrow> double \<Rightarrow> error + double" where
  "likelihood qs theta =
     (if model qs = ''ltm'' \<or> model qs = ''tpm'' then likelihood_ltm qs theta
      else if model qs = ''grm'' then likelihood_grm qs theta
      else if model qs = ''gpcm'' then likelihood_gpcm qs theta
      else Inr 0)"

text \<open>
  The overloads that take one more, hypothetical \<open>(question, answer)\<close> pair.  They share
  the name of the plain overload in the source and carry the suffix \<open>_aug\<close> here.
\<close>

definition likelihood_grm_aug :: "questionSet \<Rightarrow> double \<Rightarrow> int \<Rightarrow> int \<Rightarrow> error + double" where
  "likelihood_grm_aug qs theta question answer =
     bindE (accumulate (\<lambda>q.
              bindE (vec_at (answers qs) q) (\<lambda>a.
              bindE (probability qs theta q) (\<lambda>question_cdf.
              bindE (vec_at question_cdf a) (\<lambda>hi.
              bindE (vec_at question_cdf (a - 1)) (\<lambda>lo.
                Inr (dlog (hi - lo)))))))
            (applicable_rows qs) 0)
       (\<lambda>L.
     bindE (probability qs theta question) (\<lambda>question_cdf.
     bindE (vec_at question_cdf answer) (\<lambda>hi.
     bindE (vec_at question_cdf (answer - 1)) (\<lambda>lo.
       Inr (dexp (L + dlog (hi - lo)))))))"

definition likelihood_gpcm_aug :: "questionSet \<Rightarrow> double \<Rightarrow> int \<Rightarrow> int \<Rightarrow> error + double" where
  "likelihood_gpcm_aug qs theta question answer =
     bindE (accumulate (\<lambda>q.
              bindE (vec_at (answers qs) q) (\<lambda>a.
              bindE (probability qs theta q) (\<lambda>probs.
              bindE (vec_at probs (a - 1)) (\<lambda>p. Inr (dlog p)))))
            (applicable_rows qs) 0)
       (\<lambda>L.
     bindE (probability qs theta question) (\<lambda>probs.
     bindE (vec_at probs (answer - 1)) (\<lambda>p.
       Inr (dexp (L + dlog p)))))"

definition likelihood_ltm_aug :: "questionSet \<Rightarrow> double \<Rightarrow> int \<Rightarrow> int \<Rightarrow> error + double" where
  "likelihood_ltm_aug qs theta question answer =
     bindE (accumulate (\<lambda>q.
              bindE (prob_ltm qs theta q) (\<lambda>prob.
              bindE (vec_at (answers qs) q) (\<lambda>this_answer.
                Inr (double_of_int this_answer * dlog prob
                     + double_of_int (wrap32 (1 - this_answer)) * dlog (1 - prob)))))
            (applicable_rows qs) 0)
       (\<lambda>L.
     bindE (prob_ltm qs theta question) (\<lambda>prob.
       Inr (dexp (L + (double_of_int answer * dlog prob
                       + double_of_int (wrap32 (1 - answer)) * dlog (1 - prob))))))"

definition likelihood_aug :: "questionSet \<Rightarrow> double \<Rightarrow> int \<Rightarrow> int \<Rightarrow> error + double" where
  "likelihood_aug qs theta question answer =
     (if model qs = ''ltm'' \<or> model qs = ''tpm'' then likelihood_ltm_aug qs theta question answer
      else if model qs = ''grm'' then likelihood_grm_aug qs theta question answer
      else if model qs = ''gpcm'' then likelihood_gpcm_aug qs theta question answer
      else Inr 0)"


section \<open>Derivatives of the gpcm category masses\<close>

text \<open>The first loop of \<^verbatim>\<open>prob_derivs_gpcm_first\<close>: it fills \<open>f\<close> and \<open>f_prime\<close>.\<close>

fun derivs_first_fill ::
  "double \<Rightarrow> double \<Rightarrow> double list \<Rightarrow> double \<Rightarrow> double \<Rightarrow> double list \<Rightarrow> double list
     \<Rightarrow> double list \<times> double list" where
  "derivs_first_fill disc theta [] csum x f f_prime = (f, f_prime)"
| "derivs_first_fill disc theta (cat # cats) csum x f f_prime =
     (let csum = csum + disc * (theta - cat);
          num = dexp csum;
          x = x + disc
      in derivs_first_fill disc theta cats csum x (f @ [num]) (f_prime @ [num * x]))"

text \<open>Its second loop: the normaliser \<open>g\<close> and its derivative.\<close>

fun derivs_first_norm ::
  "double \<Rightarrow> double list \<Rightarrow> double \<Rightarrow> double \<Rightarrow> double \<Rightarrow> double \<times> double" where
  "derivs_first_norm disc [] x g g_prime = (g, g_prime)"
| "derivs_first_norm disc (fi # f) x g g_prime =
     (let x = x + disc;
          g = g + fi;
          g_prime = g_prime + fi * x
      in derivs_first_norm disc f x g g_prime)"

definition prob_derivs_gpcm_first :: "questionSet \<Rightarrow> double \<Rightarrow> int \<Rightarrow> error + double list" where
  "prob_derivs_gpcm_first qs theta question =
     bindE (vec_at (discrimination qs) question) (\<lambda>disc.
     bindE (vec_at (difficulty qs) question) (\<lambda>categoryparams.
       let csum = disc * theta;
           num = dexp csum;
           x = disc;
           (f, f_prime) = derivs_first_fill disc theta categoryparams csum x [num] [num * x];
           (g, g_prime) = derivs_first_norm disc f 0 0 0;
           b = g * g
       in Inr (map (\<lambda>(fi, f_prime_i). (g * f_prime_i - fi * g_prime) / b) (zip f f_prime))))"

text \<open>The same two loops of \<^verbatim>\<open>prob_derivs_gpcm\<close>, which also carries the second order.\<close>

fun derivs_fill ::
  "double \<Rightarrow> double \<Rightarrow> double list \<Rightarrow> double \<Rightarrow> double \<Rightarrow> double list \<Rightarrow> double list \<Rightarrow> double list
     \<Rightarrow> double list \<times> double list \<times> double list" where
  "derivs_fill disc theta [] csum x f f_prime f_primeprime = (f, f_prime, f_primeprime)"
| "derivs_fill disc theta (cat # cats) csum x f f_prime f_primeprime =
     (let csum = csum + disc * (theta - cat);
          num = dexp csum;
          x = x + disc
      in derivs_fill disc theta cats csum x
           (f @ [num]) (f_prime @ [num * x]) (f_primeprime @ [num * x * x]))"

fun derivs_norm ::
  "double \<Rightarrow> double list \<Rightarrow> double \<Rightarrow> double \<Rightarrow> double \<Rightarrow> double \<Rightarrow> double \<times> double \<times> double" where
  "derivs_norm disc [] x g g_prime g_primeprime = (g, g_prime, g_primeprime)"
| "derivs_norm disc (fi # f) x g g_prime g_primeprime =
     (let x = x + disc;
          g = g + fi;
          g_prime = g_prime + fi * x;
          g_primeprime = g_primeprime + fi * x * x
      in derivs_norm disc f x g g_prime g_primeprime)"

text \<open>The two output vectors \<open>first\<close> and \<open>second\<close> are returned as a pair.\<close>

definition prob_derivs_gpcm ::
  "questionSet \<Rightarrow> double \<Rightarrow> int \<Rightarrow> error + (double list \<times> double list)" where
  "prob_derivs_gpcm qs theta question =
     bindE (vec_at (discrimination qs) question) (\<lambda>disc.
     bindE (vec_at (difficulty qs) question) (\<lambda>categoryparams.
       let csum = disc * theta;
           num = dexp csum;
           x = disc;
           (f, f_prime, f_primeprime) =
             derivs_fill disc theta categoryparams csum x [num] [num * x] [num * x * x];
           (g, g_prime, g_primeprime) = derivs_norm disc f 0 0 0 0;
           b = g * g;
           b2 = b * b;
           b_prime = Fin 2 * g * g_prime;
           a = (\<lambda>fi f_prime_i. g * f_prime_i - fi * g_prime);
           a_prime = (\<lambda>fi f_primeprime_i. f_primeprime_i * g - g_primeprime * fi)
       in Inr (map (\<lambda>(fi, f_prime_i). a fi f_prime_i / b) (zip f f_prime),
               map (\<lambda>(fi, f_prime_i, f_primeprime_i).
                      (b * a_prime fi f_primeprime_i - a fi f_prime_i * b_prime) / b2)
                   (zip f (zip f_prime f_primeprime)))))"


section \<open>Second and first derivatives of the log-likelihood\<close>

definition grm_partial_d2LL :: "questionSet \<Rightarrow> double \<Rightarrow> int \<Rightarrow> error + double" where
  "grm_partial_d2LL qs theta question =
     bindE (vec_at (answers qs) question) (\<lambda>answer_k.
     bindE (probability qs theta question) (\<lambda>probabilities.
     bindE (vec_at probabilities answer_k) (\<lambda>P_star1.
     bindE (vec_at probabilities (answer_k - 1)) (\<lambda>P_star2.
       let P = P_star1 - P_star2;
           Q_star1 = 1 - P_star1;
           Q_star2 = 1 - P_star2;
           w2 = P_star2 * Q_star2;
           w1 = P_star1 * Q_star1;
           w = w1 - w2;
           first_term = (- w2 * (Q_star2 - P_star2) + w1 * (Q_star1 - P_star1)) / P;
           second_term = dpow2 w / dpow2 P
       in Inr (first_term - second_term)))))"

definition grm_partial_d2LL_aug :: "questionSet \<Rightarrow> double \<Rightarrow> int \<Rightarrow> int \<Rightarrow> error + double" where
  "grm_partial_d2LL_aug qs theta question answer =
     bindE (probability qs theta question) (\<lambda>probabilities.
     bindE (vec_at probabilities answer) (\<lambda>P_star1.
     bindE (vec_at probabilities (wrap32 (answer - 1))) (\<lambda>P_star2.
       let P = P_star1 - P_star2;
           Q_star1 = 1 - P_star1;
           Q_star2 = 1 - P_star2;
           w2 = P_star2 * Q_star2;
           w1 = P_star1 * Q_star1;
           w = w1 - w2;
           first_term = (- w2 * (Q_star2 - P_star2) + w1 * (Q_star1 - P_star1)) / P;
           second_term = dpow2 w / dpow2 P
       in Inr (first_term - second_term))))"

definition gpcm_partial_d2LL :: "questionSet \<Rightarrow> double \<Rightarrow> int \<Rightarrow> error + double" where
  "gpcm_partial_d2LL qs theta question =
     bindE (vec_at (answers qs) question) (\<lambda>answer.
       let index = wrap32 (answer - 1) in
     bindE (probability qs theta question) (\<lambda>probs.
     bindE (prob_derivs_gpcm qs theta question) (\<lambda>(probs_1d, probs_2d).
     bindE (vec_at probs index) (\<lambda>p.
     bindE (vec_at probs_1d index) (\<lambda>p_prime.
     bindE (vec_at probs_2d index) (\<lambda>p_primeprime.
       Inr (- ((dpow2 p_prime / dpow2 p) - (p_primeprime / p)))))))))"

definition gpcm_partial_d2LL_aug :: "questionSet \<Rightarrow> double \<Rightarrow> int \<Rightarrow> int \<Rightarrow> error + double" where
  "gpcm_partial_d2LL_aug qs theta question answer =
     (let index = wrap32 (answer - 1) in
     bindE (probability qs theta question) (\<lambda>probs.
     bindE (prob_derivs_gpcm qs theta question) (\<lambda>(probs_1d, probs_2d).
     bindE (vec_at probs index) (\<lambda>p.
     bindE (vec_at probs_1d index) (\<lambda>p_prime.
     bindE (vec_at probs_2d index) (\<lambda>p_primeprime.
       Inr (- ((dpow2 p_prime / dpow2 p) - (p_primeprime / p)))))))))"

definition gpcm_partial_d1LL :: "questionSet \<Rightarrow> double \<Rightarrow> int \<Rightarrow> error + double" where
  "gpcm_partial_d1LL qs theta question =
     bindE (vec_at (answers qs) question) (\<lambda>answer.
       let index = wrap32 (answer - 1) in
     bindE (probability qs theta question) (\<lambda>probs.
     bindE (prob_derivs_gpcm_first qs theta question) (\<lambda>probs_1d.
     bindE (vec_at probs index) (\<lambda>p.
     bindE (vec_at probs_1d index) (\<lambda>p_prime.
       Inr (p_prime / p))))))"

definition gpcm_partial_d1LL_aug :: "questionSet \<Rightarrow> double \<Rightarrow> int \<Rightarrow> int \<Rightarrow> error + double" where
  "gpcm_partial_d1LL_aug qs theta question answer =
     (let index = wrap32 (answer - 1) in
     bindE (probability qs theta question) (\<lambda>probs.
     bindE (prob_derivs_gpcm_first qs theta question) (\<lambda>probs_1d.
     bindE (vec_at probs index) (\<lambda>p.
     bindE (vec_at probs_1d index) (\<lambda>p_prime.
       Inr (p_prime / p))))))"

definition gpcm_d2LL :: "questionSet \<Rightarrow> double \<Rightarrow> error + double" where
  "gpcm_d2LL qs theta =
     accumulate (\<lambda>question. gpcm_partial_d2LL qs theta question) (applicable_rows qs) 0"

definition gpcm_d2LL_aug :: "questionSet \<Rightarrow> double \<Rightarrow> int \<Rightarrow> int \<Rightarrow> error + double" where
  "gpcm_d2LL_aug qs theta question answer =
     bindE (accumulate (\<lambda>q.
              bindE (vec_at (answers qs) q) (\<lambda>a. gpcm_partial_d2LL_aug qs theta q a))
            (applicable_rows qs) 0)
       (\<lambda>d2l.
     bindE (gpcm_partial_d2LL_aug qs theta question answer) (\<lambda>v. Inr (d2l + v)))"

definition grm_d2LL :: "questionSet \<Rightarrow> double \<Rightarrow> error + double" where
  "grm_d2LL qs theta =
     accumulate (\<lambda>question.
         bindE (vec_at (discrimination qs) question) (\<lambda>disc.
           let question_discrimination = dpow2 disc in
         bindE (grm_partial_d2LL qs theta question) (\<lambda>second_derivative.
           Inr (question_discrimination * second_derivative))))
       (applicable_rows qs) 0"

definition grm_d2LL_aug :: "questionSet \<Rightarrow> double \<Rightarrow> int \<Rightarrow> int \<Rightarrow> error + double" where
  "grm_d2LL_aug qs theta question answer =
     bindE (accumulate (\<lambda>q.
              bindE (vec_at (discrimination qs) q) (\<lambda>disc.
                let question_discrimination = dpow2 disc in
              bindE (vec_at (answers qs) q) (\<lambda>a.
              bindE (grm_partial_d2LL_aug qs theta q a) (\<lambda>second_derivative.
                Inr (question_discrimination * second_derivative)))))
            (applicable_rows qs) 0)
       (\<lambda>lambda_theta.
     bindE (vec_at (discrimination qs) question) (\<lambda>disc.
       let question_discrimination = dpow2 disc in
     bindE (grm_partial_d2LL_aug qs theta question answer) (\<lambda>second_derivative.
       Inr (lambda_theta + question_discrimination * second_derivative))))"

definition ltm_d2LL :: "questionSet \<Rightarrow> double \<Rightarrow> error + double" where
  "ltm_d2LL qs theta =
     bindE (accumulate (\<lambda>question.
              bindE (prob_ltm qs theta question) (\<lambda>P.
              bindE (vec_at (guessing qs) question) (\<lambda>guess.
                let Q = 1 - P;
                    lambda_temp = (P - guess) / (1 - guess) in
              bindE (vec_at (discrimination qs) question) (\<lambda>disc.
                Inr (dpow2 disc * dpow2 lambda_temp * (Q / P))))))
            (applicable_rows qs) 0)
       (\<lambda>lambda_theta. Inr (- lambda_theta))"

definition ltm_d2LL_aug :: "questionSet \<Rightarrow> double \<Rightarrow> int \<Rightarrow> int \<Rightarrow> error + double" where
  "ltm_d2LL_aug qs theta question answer =
     bindE (accumulate (\<lambda>q.
              bindE (prob_ltm qs theta q) (\<lambda>P.
              bindE (vec_at (guessing qs) q) (\<lambda>guess.
                let Q = 1 - P;
                    lambda_temp = (P - guess) / (1 - guess) in
              bindE (vec_at (discrimination qs) q) (\<lambda>disc.
                Inr (dpow2 (disc * lambda_temp) * (Q / P))))))
            (applicable_rows qs) 0)
       (\<lambda>lambda_theta.
     bindE (prob_ltm qs theta question) (\<lambda>P.
     bindE (vec_at (guessing qs) question) (\<lambda>guess.
       let Q = 1 - P;
           lambda_temp = (P - guess) / (1 - guess) in
     bindE (vec_at (discrimination qs) question) (\<lambda>disc.
       Inr (- (lambda_theta + dpow2 (disc * lambda_temp) * (Q / P)))))))"

definition gpcm_d1LL :: "questionSet \<Rightarrow> double \<Rightarrow> error + double" where
  "gpcm_d1LL qs theta =
     accumulate (\<lambda>question. gpcm_partial_d1LL qs theta question) (applicable_rows qs) 0"

definition gpcm_d1LL_aug :: "questionSet \<Rightarrow> double \<Rightarrow> int \<Rightarrow> int \<Rightarrow> error + double" where
  "gpcm_d1LL_aug qs theta question answer =
     bindE (accumulate (\<lambda>q.
              bindE (vec_at (answers qs) q) (\<lambda>a. gpcm_partial_d1LL_aug qs theta q a))
            (applicable_rows qs) 0)
       (\<lambda>d1l.
     bindE (gpcm_partial_d1LL_aug qs theta question answer) (\<lambda>v. Inr (d1l + v)))"

definition grm_d1LL :: "questionSet \<Rightarrow> double \<Rightarrow> error + double" where
  "grm_d1LL qs theta =
     accumulate (\<lambda>question.
         bindE (vec_at (answers qs) question) (\<lambda>answer_k.
         bindE (probability qs theta question) (\<lambda>probabilities.
         bindE (vec_at probabilities answer_k) (\<lambda>P_star1.
           let Q_star1 = 1 - P_star1 in
         bindE (vec_at probabilities (wrap32 (answer_k - 1))) (\<lambda>P_star2.
           let Q_star2 = 1 - P_star2;
               P = P_star1 - P_star2;
               w2 = P_star2 * Q_star2;
               w1 = P_star1 * Q_star1 in
         bindE (vec_at (discrimination qs) question) (\<lambda>disc.
           Inr (Fin (- 1) * disc * ((w1 - w2) / P))))))))
       (applicable_rows qs) 0"

definition grm_d1LL_aug :: "questionSet \<Rightarrow> double \<Rightarrow> int \<Rightarrow> int \<Rightarrow> error + double" where
  "grm_d1LL_aug qs theta question answer =
     bindE (accumulate (\<lambda>q.
              bindE (vec_at (answers qs) q) (\<lambda>answer_k.
              bindE (probability qs theta q) (\<lambda>probabilities.
              bindE (vec_at probabilities answer_k) (\<lambda>P_star1.
              bindE (vec_at probabilities (wrap32 (answer_k - 1))) (\<lambda>P_star2.
                let P = P_star1 - P_star2;
                    w = P_star1 * (1 - P_star1) - P_star2 * (1 - P_star2) in
              bindE (vec_at (discrimination qs) q) (\<lambda>disc.
                Inr (Fin (- 1) * disc * (w / P))))))))
            (applicable_rows qs) 0)
       (\<lambda>l_theta.
     bindE (probability qs theta question) (\<lambda>probabilities.
     bindE (vec_at probabilities answer) (\<lambda>P_star1.
     bindE (vec_at probabilities (wrap32 (answer - 1))) (\<lambda>P_star2.
       let P = P_star1 - P_star2;
           w = P_star1 * (1 - P_star1) - P_star2 * (1 - P_star2) in
     bindE (vec_at (discrimination qs) question) (\<lambda>disc.
       Inr (l_theta + Fin (- 1) * disc * (w / P)))))))"

definition ltm_d1LL :: "questionSet \<Rightarrow> double \<Rightarrow> error + double" where
  "ltm_d1LL qs theta =
     accumulate (\<lambda>question.
         bindE (prob_ltm qs theta question) (\<lambda>P.
         bindE (vec_at (guessing qs) question) (\<lambda>guess.
         bindE (vec_at (answers qs) question) (\<lambda>answer.
         bindE (vec_at (discrimination qs) question) (\<lambda>disc.
           Inr (disc * ((P - guess) / (P * (1 - guess))) * (double_of_int answer - P)))))))
       (applicable_rows qs) 0"

definition ltm_d1LL_aug :: "questionSet \<Rightarrow> double \<Rightarrow> int \<Rightarrow> int \<Rightarrow> error + double" where
  "ltm_d1LL_aug qs theta question answer =
     bindE (accumulate (\<lambda>q.
              bindE (prob_ltm qs theta q) (\<lambda>P.
              bindE (vec_at (guessing qs) q) (\<lambda>guess.
              bindE (vec_at (answers qs) q) (\<lambda>a.
              bindE (vec_at (discrimination qs) q) (\<lambda>disc.
                Inr (disc * ((P - guess) / (P * (1 - guess))) * (double_of_int a - P)))))))
            (applicable_rows qs) 0)
       (\<lambda>l_theta.
     bindE (prob_ltm qs theta question) (\<lambda>P.
     bindE (vec_at (guessing qs) question) (\<lambda>guess.
     bindE (vec_at (discrimination qs) question) (\<lambda>disc.
       Inr (l_theta
            + disc * ((P - guess) / (P * (1 - guess))) * (double_of_int answer - P))))))"

definition d1LL :: "questionSet \<Rightarrow> double \<Rightarrow> bool \<Rightarrow> prior \<Rightarrow> error + double" where
  "d1LL qs theta use_prior pr =
     (let prior_shift = (theta - param0 pr) / dpow2 (param1 pr) in
      if applicable_rows qs = [] then Inr prior_shift
      else
        bindE (if model qs = ''ltm'' \<or> model qs = ''tpm'' then ltm_d1LL qs theta
               else if model qs = ''grm'' then grm_d1LL qs theta
               else if model qs = ''gpcm'' then gpcm_d1LL qs theta
               else Inr 0)
          (\<lambda>l_theta. Inr (if use_prior then l_theta - prior_shift else l_theta)))"

definition d1LL_aug ::
  "questionSet \<Rightarrow> double \<Rightarrow> bool \<Rightarrow> prior \<Rightarrow> int \<Rightarrow> int \<Rightarrow> error + double" where
  "d1LL_aug qs theta use_prior pr question answer =
     bindE (if model qs = ''ltm'' \<or> model qs = ''tpm'' then ltm_d1LL_aug qs theta question answer
            else if model qs = ''grm'' then grm_d1LL_aug qs theta question answer
            else if model qs = ''gpcm'' then gpcm_d1LL_aug qs theta question answer
            else Inr 0)
       (\<lambda>l_theta.
          Inr (if use_prior then l_theta - ((theta - param0 pr) / dpow2 (param1 pr))
               else l_theta))"

definition d2LL :: "questionSet \<Rightarrow> double \<Rightarrow> bool \<Rightarrow> prior \<Rightarrow> error + double" where
  "d2LL qs theta use_prior pr =
     (let prior_shift = 1 / dpow2 (param1 pr) in
      if applicable_rows qs = [] then Inr (- prior_shift)
      else
        bindE (if model qs = ''ltm'' \<or> model qs = ''tpm'' then ltm_d2LL qs theta
               else if model qs = ''grm'' then grm_d2LL qs theta
               else if model qs = ''gpcm'' then gpcm_d2LL qs theta
               else Inr 0)
          (\<lambda>lambda_theta.
             Inr (if use_prior then lambda_theta - prior_shift else lambda_theta)))"

definition d2LL_aug ::
  "questionSet \<Rightarrow> double \<Rightarrow> bool \<Rightarrow> prior \<Rightarrow> int \<Rightarrow> int \<Rightarrow> error + double" where
  "d2LL_aug qs theta use_prior pr question answer =
     bindE (if model qs = ''ltm'' \<or> model qs = ''tpm'' then ltm_d2LL_aug qs theta question answer
            else if model qs = ''grm'' then grm_d2LL_aug qs theta question answer
            else if model qs = ''gpcm'' then gpcm_d2LL_aug qs theta question answer
            else Inr 0)
       (\<lambda>lambda_theta.
          Inr (if use_prior then lambda_theta - (1 / dpow2 (param1 pr)) else lambda_theta))"


section \<open>Information\<close>

definition obsInf :: "questionSet \<Rightarrow> double \<Rightarrow> int \<Rightarrow> error + double" where
  "obsInf qs theta item =
     bindE (vec_at (discrimination qs) item) (\<lambda>disc.
       if model qs = ''grm'' then
         bindE (grm_partial_d2LL qs theta item) (\<lambda>v. Inr (- dpow2 disc * v))
       else if model qs = ''gpcm'' then
         bindE (gpcm_partial_d2LL qs theta item) (\<lambda>v. Inr (- v))
       else
         bindE (vec_at (guessing qs) item) (\<lambda>guess.
         bindE (prob_ltm qs theta item) (\<lambda>P.
           let Q = 1 - P;
               temp = dpow2 ((P - guess) / (1 - guess))
           in Inr (dpow2 disc * temp * (Q / P)))))"

definition fisherInf :: "questionSet \<Rightarrow> double \<Rightarrow> int \<Rightarrow> error + double" where
  "fisherInf qs theta item =
     (if model qs = ''ltm'' \<or> model qs = ''tpm'' then obsInf qs theta item
      else
        bindE (probability qs theta item) (\<lambda>probabilities.
        bindE (vec_at (discrimination qs) item) (\<lambda>disc.
          let discrimination_squared = dpow2 disc in
          if model qs = ''grm'' then
            bindE (vec_at (difficulty qs) item) (\<lambda>dv.
              accumulate (\<lambda>i.
                  bindE (vec_at probabilities i) (\<lambda>P_star1.
                  bindE (vec_at probabilities (i - 1)) (\<lambda>P_star2.
                    let w1 = P_star1 * (1 - P_star1);
                        w2 = P_star2 * (1 - P_star2)
                    in Inr (discrimination_squared * (dpow2 (w1 - w2) / (P_star1 - P_star2))))))
                (map int [1 ..< length dv + 2]) 0)
          else if model qs = ''gpcm'' then
            bindE (prob_derivs_gpcm qs theta item) (\<lambda>(prob_firstderiv, prob_secondderiv).
              accumulate (\<lambda>i.
                  bindE (vec_at probabilities i) (\<lambda>p.
                  bindE (vec_at prob_firstderiv i) (\<lambda>p_prime.
                  bindE (vec_at prob_secondderiv i) (\<lambda>p_primeprime.
                    Inr ((dpow2 p_prime / p) - p_primeprime)))))
                (map int [0 ..< length probabilities]) 0)
          else Inr 0)))"

text \<open>
  What the estimator takes from outside its source file: the point estimate and its
  standard error (virtual, implemented by the estimation strategies), the quadrature
  routine and its fixed number of subintervals.  They are parameters of the model.  The
  estimates read the question set they are given and do not write to it; they and the
  integrand may throw.
\<close>

record externals =
  estimateTheta :: "questionSet \<Rightarrow> prior \<Rightarrow> error + double"
  estimateSE :: "questionSet \<Rightarrow> prior \<Rightarrow> error + double"
  integrate :: "(double \<Rightarrow> error + double) \<Rightarrow> nat \<Rightarrow> double \<Rightarrow> double \<Rightarrow> error + double"
  integrationSubintervals :: nat

definition fisherTestInfo :: "externals \<Rightarrow> questionSet \<Rightarrow> prior \<Rightarrow> error + double" where
  "fisherTestInfo E qs pr =
     bindE (estimateTheta E qs pr) (\<lambda>theta.
       accumulate (\<lambda>item. fisherInf qs theta item) (applicable_rows qs) 0)"

definition integrate_selectItem ::
  "externals \<Rightarrow> (double \<Rightarrow> error + double) \<Rightarrow> double \<Rightarrow> double \<Rightarrow> error + double" where
  "integrate_selectItem E function lower upper =
     integrate E function (integrationSubintervals E) lower upper"

definition fii :: "externals \<Rightarrow> questionSet \<Rightarrow> int \<Rightarrow> prior \<Rightarrow> error + double" where
  "fii E qs item pr =
     (let fii_j = (\<lambda>theta_not. fisherInf qs theta_not item) in
      bindE (vec_at (z qs) 0) (\<lambda>z0.
      bindE (fisherTestInfo E qs pr) (\<lambda>info.
        let delta = z0 * dpow_half info in
      bindE (estimateTheta E qs pr) (\<lambda>theta_lo.
        let lower = theta_lo - delta in
      bindE (estimateTheta E qs pr) (\<lambda>theta_hi.
        let upper = theta_hi + delta in
        integrate_selectItem E fii_j lower upper)))))"


section \<open>The maximum Fisher interval information selector\<close>

text \<open>
  Modelled from the spec: the declaration of \<^verbatim>\<open>Selection\<close>, with the fields that
  \<^verbatim>\<open>selectItem\<close> assigns.
\<close>

record selection =
  sel_questions :: "int list"
  sel_values :: "double list"
  sel_name :: string
  sel_question_names :: "string list"
  sel_item :: int

text \<open>
  The scan of \<^verbatim>\<open>MFIISelector::selectItem\<close> over \<open>nonapplicable_rows\<close>, with the names
  and values pushed so far and the running \<open>max_mfii\<close> and \<open>max_item\<close>.  The names are
  read with the unchecked \<^verbatim>\<open>operator[]\<close>.
\<close>

fun mfii_scan ::
  "externals \<Rightarrow> questionSet \<Rightarrow> prior \<Rightarrow> int list \<Rightarrow> string list \<Rightarrow> double list \<Rightarrow> double \<Rightarrow> int
     \<Rightarrow> error + (string list \<times> double list \<times> double \<times> int)" where
  "mfii_scan E qs pr [] names vals max_mfii max_item = Inr (names, vals, max_mfii, max_item)"
| "mfii_scan E qs pr (question # rest) names vals max_mfii max_item =
     (let names = names @ [question_names qs ! nat question] in
      bindE (fii E qs question pr) (\<lambda>v.
        let vals = vals @ [v] in
        if max_mfii < v then mfii_scan E qs pr rest names vals v question
        else mfii_scan E qs pr rest names vals max_mfii max_item))"

definition selectItem :: "externals \<Rightarrow> questionSet \<Rightarrow> prior \<Rightarrow> error + selection" where
  "selectItem E qs pr =
     bindE (mfii_scan E qs pr (nonapplicable_rows qs) [] [] 0 (- 1))
       (\<lambda>(names, vals, max_mfii, max_item).
          Inr \<lparr>sel_questions = nonapplicable_rows qs, sel_values = vals,
               sel_name = ''MFII'', sel_question_names = names, sel_item = max_item\<rparr>)"


section \<open>Expected posterior variance\<close>

text \<open>
  The functions below write to the question set, so they take it and return it with
  their result; when they throw, the question set returned is the one at the throw.
  \<^verbatim>\<open>answers.at(item) = v\<close> is \<open>set_answer\<close>.
\<close>

definition set_answer :: "questionSet \<Rightarrow> int \<Rightarrow> int \<Rightarrow> error + questionSet" where
  "set_answer qs item v =
     (if 0 \<le> item \<and> item < int (length (answers qs))
      then Inr (qs\<lparr>answers := (answers qs)[nat item := v]\<rparr>)
      else Inl OutOfRange)"

definition push_back_row :: "questionSet \<Rightarrow> int \<Rightarrow> questionSet" where
  "push_back_row qs item = qs\<lparr>applicable_rows := applicable_rows qs @ [item]\<rparr>"

definition pop_back_row :: "questionSet \<Rightarrow> questionSet" where
  "pop_back_row qs = qs\<lparr>applicable_rows := butlast (applicable_rows qs)\<rparr>"

text \<open>The loop of \<^verbatim>\<open>polytomous_posterior_variance\<close> over the hypothetical answers.\<close>

fun variances_loop ::
  "externals \<Rightarrow> int \<Rightarrow> prior \<Rightarrow> nat list \<Rightarrow> questionSet \<Rightarrow> double list
     \<Rightarrow> (error + double list) \<times> questionSet" where
  "variances_loop E item pr [] qs variances = (Inr variances, qs)"
| "variances_loop E item pr (i # rest) qs variances =
     (case set_answer qs item (int i + 1) of
        Inl e \<Rightarrow> (Inl e, qs)
      | Inr qs \<Rightarrow>
          (case estimateSE E qs pr of
             Inl e \<Rightarrow> (Inl e, qs)
           | Inr se \<Rightarrow> variances_loop E item pr rest qs (variances @ [dpow2 se])))"

definition polytomous_posterior_variance ::
  "externals \<Rightarrow> int \<Rightarrow> prior \<Rightarrow> questionSet \<Rightarrow> (error + double) \<times> questionSet" where
  "polytomous_posterior_variance E item pr qs =
     (case bindE (estimateTheta E qs pr) (\<lambda>theta. probability qs theta item) of
        Inl e \<Rightarrow> (Inl e, qs)
      | Inr probabilities \<Rightarrow>
          (let qs = push_back_row qs item in
           case vec_at (difficulty qs) item of
             Inl e \<Rightarrow> (Inl e, qs)
           | Inr dv \<Rightarrow>
               (case variances_loop E item pr [0 ..< length dv + 1] qs [] of
                  (Inl e, qs) \<Rightarrow> (Inl e, qs)
                | (Inr variances, qs) \<Rightarrow>
                    (case
                       (if model qs = ''grm'' then
                          accumulate (\<lambda>i.
                              bindE (vec_at variances (i - 1)) (\<lambda>v.
                              bindE (vec_at probabilities i) (\<lambda>hi.
                              bindE (vec_at probabilities (i - 1)) (\<lambda>lo.
                                Inr (v * (hi - lo))))))
                            (map int [1 ..< length probabilities]) 0
                        else if model qs = ''gpcm'' then
                          accumulate (\<lambda>i.
                              bindE (vec_at variances i) (\<lambda>v.
                              bindE (vec_at probabilities i) (\<lambda>p.
                                Inr (v * p))))
                            (map int [0 ..< length probabilities]) 0
                        else Inr 0)
                     of
                       Inl e \<Rightarrow> (Inl e, qs)
                     | Inr vsum \<Rightarrow> (Inr vsum, pop_back_row qs)))))"

definition binary_posterior_variance ::
  "externals \<Rightarrow> int \<Rightarrow> prior \<Rightarrow> questionSet \<Rightarrow> (error + double) \<times> questionSet" where
  "binary_posterior_variance E item pr qs =
     (case bindE (estimateTheta E qs pr) (\<lambda>theta. prob_ltm qs theta item) of
        Inl e \<Rightarrow> (Inl e, qs)
      | Inr probability_incorrect \<Rightarrow>
          (let qs = push_back_row qs item in
           case set_answer qs item 1 of
             Inl e \<Rightarrow> (Inl e, qs)
           | Inr qs \<Rightarrow>
           (case estimateSE E qs pr of
             Inl e \<Rightarrow> (Inl e, qs)
           | Inr se1 \<Rightarrow>
           (let variance_correct = dpow2 se1 in
            case set_answer qs item 0 of
              Inl e \<Rightarrow> (Inl e, qs)
            | Inr qs \<Rightarrow>
            (case estimateSE E qs pr of
               Inl e \<Rightarrow> (Inl e, qs)
             | Inr se0 \<Rightarrow>
                 (let variance_incorrect = dpow2 se0;
                      qs = pop_back_row qs
                  in (Inr (probability_incorrect * variance_correct
                           + (1 - probability_incorrect) * variance_incorrect), qs)))))))"

definition expectedPV ::
  "externals \<Rightarrow> int \<Rightarrow> prior \<Rightarrow> questionSet \<Rightarrow> (error + double) \<times> questionSet" where
  "expectedPV E item pr qs =
     (case
        (if model qs = ''ltm'' \<or> model qs = ''tpm'' then binary_posterior_variance E item pr qs
         else if model qs = ''grm'' then polytomous_posterior_variance E item pr qs
         else if model qs = ''gpcm'' then polytomous_posterior_variance E item pr qs
         else (Inr 0, qs))
      of
        (Inl e, qs) \<Rightarrow> (Inl e, qs)
      | (Inr result, qs) \<Rightarrow>
          (case set_answer qs item NA_INTEGER of
             Inl e \<Rightarrow> (Inl e, qs)
           | Inr qs \<Rightarrow> (Inr result, qs)))"


section \<open>Quantities named by the specification\<close>

text \<open>
  The total of a sequence of doubles, accumulated from the first element on as the loops
  of the source accumulate: with rounding the order of the additions matters.
\<close>

fun dsum :: "double list \<Rightarrow> double" where
  "dsum [] = 0"
| "dsum (x # xs) = foldl (+) x xs"

text \<open>
  The quantities the specification names for the two polytomous models, written from
  its words: the running sums \<open>s\<^sub>0 = discrimination * theta\<close>,
  \<open>s\<^sub>i = s\<^sub>i\<^sub>-\<^sub>1 + discrimination * (theta - difficulty\<^sub>i)\<close> and their exponentials for
  gpcm, and the padded sequence \<open>[0, F\<^sub>1, \<dots>, F\<^sub>k, 1]\<close> for grm.
\<close>

fun gpcm_sums :: "double \<Rightarrow> double \<Rightarrow> double \<Rightarrow> double list \<Rightarrow> double list" where
  "gpcm_sums disc theta s [] = [s]"
| "gpcm_sums disc theta s (b # bs) = s # gpcm_sums disc theta (s + disc * (theta - b)) bs"

definition gpcm_masses :: "questionSet \<Rightarrow> double \<Rightarrow> int \<Rightarrow> double list" where
  "gpcm_masses qs theta question =
     (let disc = discrimination qs ! nat question
      in map dexp (gpcm_sums disc theta (disc * theta) (difficulty qs ! nat question)))"

definition grm_padded :: "questionSet \<Rightarrow> double \<Rightarrow> int \<Rightarrow> double list" where
  "grm_padded qs theta question =
     [0] @ map (calculate (discrimination qs ! nat question) theta) (difficulty qs ! nat question) @ [1]"


text \<open>
  An item of a binary model that \<open>prob_ltm\<close> can read, with real-valued parameters: its
  id indexes the three parameter arrays, it has a difficulty, and each of its parameters
  is a finite double.
\<close>

definition ltm_item_ok :: "questionSet \<Rightarrow> int \<Rightarrow> bool" where
  "ltm_item_ok qs question \<longleftrightarrow>
     0 \<le> question
     \<and> question < int (length (difficulty qs))
     \<and> question < int (length (discrimination qs))
     \<and> question < int (length (guessing qs))
     \<and> difficulty qs ! nat question \<noteq> []
     \<and> is_finite (difficulty qs ! nat question ! 0)
     \<and> is_finite (discrimination qs ! nat question)
     \<and> is_finite (guessing qs ! nat question)"


text \<open>
  The category masses of grm, as the specification has them: the differences of
  consecutive values of the padded sequence.
\<close>

fun grm_category_masses :: "double list \<Rightarrow> double list" where
  "grm_category_masses (lo # hi # cdf) = (hi - lo) # grm_category_masses (hi # cdf)"
| "grm_category_masses cdf = []"

text \<open>
  The state a what-if computation works on: item \<open>question\<close> appended to
  \<open>applicable_rows\<close> and its answer set to \<open>answer\<close>.
\<close>

definition hypothetical :: "questionSet \<Rightarrow> int \<Rightarrow> int \<Rightarrow> questionSet" where
  "hypothetical qs question answer =
     qs\<lparr>applicable_rows := applicable_rows qs @ [question],
        answers := (answers qs)[nat question := answer]\<rparr>"


text \<open>
  An answer that was given: a 32-bit integer other than the sentinel \<^verbatim>\<open>NA_INTEGER\<close>.
\<close>

definition given_answer :: "int \<Rightarrow> bool" where
  "given_answer v \<longleftrightarrow> - 2147483648 < v \<and> v < 2147483648"


section \<open>Concrete question sets\<close>

text \<open>Small instances on which the theorems below are evaluated.\<close>

definition qs_unknown :: questionSet where
  "qs_unknown = \<lparr>model = ''rasch'', discrimination = [Fin 1], difficulty = [[Fin 0]],
     guessing = [Fin 0], answers = [NA_INTEGER], applicable_rows = [],
     nonapplicable_rows = [0], question_names = [''q1''], lowerBound = Fin (- 5),
     upperBound = Fin 5, z = [Fin 2]\<rparr>"

definition pr_std :: prior where
  "pr_std = \<lparr>param0 = Fin 0, param1 = Fin 1\<rparr>"

definition qs_grm :: questionSet where
  "qs_grm = \<lparr>model = ''grm'', discrimination = [Fin 1], difficulty = [[Fin 0]],
     guessing = [Fin 0], answers = [NA_INTEGER], applicable_rows = [],
     nonapplicable_rows = [0], question_names = [''q1''], lowerBound = Fin (- 5),
     upperBound = Fin 5, z = [Fin 2]\<rparr>"

definition qs_gpcm :: questionSet where
  "qs_gpcm = qs_grm\<lparr>model := ''gpcm''\<rparr>"

definition qs_ltm :: questionSet where
  "qs_ltm = \<lparr>model = ''ltm'', discrimination = [Fin 1], difficulty = [[Fin 0]],
     guessing = [Fin 0], answers = [NA_INTEGER], applicable_rows = [],
     nonapplicable_rows = [0], question_names = [''q1''], lowerBound = Fin (- 5),
     upperBound = Fin 5, z = [Fin 2]\<rparr>"

definition qs_gpcm_far :: questionSet where
  "qs_gpcm_far = \<lparr>model = ''gpcm'', discrimination = [Fin 1], difficulty = [[Fin 2000]],
     guessing = [Fin 0], answers = [NA_INTEGER], applicable_rows = [],
     nonapplicable_rows = [0], question_names = [''q1''], lowerBound = Fin (- 5),
     upperBound = Fin 5, z = [Fin 2]\<rparr>"

text \<open>
  A partial credit item with the discrimination \<open>2 ^ 1023\<close>, whose product with a theta of
  2 overflows.
\<close>

definition qs_gpcm_big :: questionSet where
  "qs_gpcm_big = \<lparr>model = ''gpcm'', discrimination = [Fin (2 ^ 1023)], difficulty = [[Fin 4]],
     guessing = [Fin 0], answers = [NA_INTEGER], applicable_rows = [],
     nonapplicable_rows = [0], question_names = [''q1''], lowerBound = Fin (- 5),
     upperBound = Fin 5, z = [Fin 2]\<rparr>"

text \<open>Two graded items, the first of them answered.\<close>

definition qs_grm_two :: questionSet where
  "qs_grm_two = \<lparr>model = ''grm'', discrimination = [Fin 1, Fin 1],
     difficulty = [[Fin 0], [Fin 0]], guessing = [Fin 0, Fin 0],
     answers = [1, NA_INTEGER], applicable_rows = [0],
     nonapplicable_rows = [1], question_names = [''q1'', ''q2''], lowerBound = Fin (- 5),
     upperBound = Fin 5, z = [Fin 2]\<rparr>"

text \<open>A binary item with the discrimination \<open>2 ^ 512\<close>, whose square overflows.\<close>

definition qs_steep :: questionSet where
  "qs_steep = \<lparr>model = ''ltm'', discrimination = [Fin (2 ^ 512)], difficulty = [[Fin 0]],
     guessing = [Fin 0], answers = [NA_INTEGER], applicable_rows = [],
     nonapplicable_rows = [0], question_names = [''q1''], lowerBound = Fin (- 5),
     upperBound = Fin 5, z = [Fin 2]\<rparr>"

text \<open>
  Externals for the evaluations: a constant point estimate and standard error, and a
  one-panel midpoint rule as the quadrature.
\<close>

definition E_midpoint :: externals where
  "E_midpoint =
     \<lparr>estimateTheta = (\<lambda>qs pr. Inr (Fin 0)),
      estimateSE = (\<lambda>qs pr. Inr (Fin 1)),
      integrate = (\<lambda>f n lower upper.
         bindE (f ((lower + upper) / Fin 2)) (\<lambda>y. Inr ((upper - lower) * y))),
      integrationSubintervals = 10\<rparr>"

definition qs_three :: questionSet where
  "qs_three = \<lparr>model = ''ltm'', discrimination = [Fin 2, Fin 1, Fin 1],
     difficulty = [[Fin 0], [Fin 0], [Fin 0]], guessing = [Fin 0, Fin 0, Fin 0],
     answers = [1, NA_INTEGER, NA_INTEGER], applicable_rows = [0],
     nonapplicable_rows = [1, 2], question_names = [''q1'', ''q2'', ''q3''],
     lowerBound = Fin (- 5), upperBound = Fin 5, z = [Fin 2]\<rparr>"

text \<open>
  The same externals with a standard error that throws once an item is applicable, and
  with a point estimate that throws.
\<close>

definition E_failing :: externals where
  "E_failing = E_midpoint\<lparr>estimateSE :=
     (\<lambda>qs pr. if applicable_rows qs = [] then Inr (Fin 1) else Inl theta_too_extreme)\<rparr>"

definition E_no_estimate :: externals where
  "E_no_estimate = E_midpoint\<lparr>estimateTheta := (\<lambda>qs pr. Inl theta_too_extreme)\<rparr>"

section \<open>Rounding\<close>

lemma rne_of_int [simp]: "rne (of_int n) = n"
  by (simp add: rne_def)

lemma rne_err: "\<bar>of_int (rne q) - q\<bar> \<le> 1 / 2"
  unfolding rne_def Let_def by (auto; linarith)

lemma rne_mono: assumes "q \<le> q'" shows "rne q \<le> rne q'"
proof (rule ccontr)
  assume "\<not> rne q \<le> rne q'"
  then have "rne q' + 1 \<le> rne q" by simp
  then have *: "of_int (rne q') + 1 \<le> (of_int (rne q) :: real)" by linarith
  have a: "\<bar>of_int (rne q) - q\<bar> \<le> 1 / 2" and b: "\<bar>of_int (rne q') - q'\<bar> \<le> 1 / 2"
    by (rule rne_err)+
  from * a b assms have "q = q'" by linarith
  with \<open>\<not> rne q \<le> rne q'\<close> show False by simp
qed

lemma rne_ge: "of_int a \<le> q \<Longrightarrow> a \<le> rne q"
  using rne_mono [of "of_int a" q] by simp

lemma rne_le: "q \<le> of_int b \<Longrightarrow> rne q \<le> b"
  using rne_mono [of q "of_int b"] by simp

lemma ulp_pos: "0 < ulp x"
  by (simp add: ulp_def)

lemma expo_ge: "- 1022 \<le> expo x"
  by (simp add: expo_def)

lemma expo_mono: "0 < x \<Longrightarrow> x \<le> y \<Longrightarrow> expo x \<le> expo y"
  unfolding expo_def by (intro max.mono floor_mono) (simp_all)

lemma expo_upper: assumes "0 < x" shows "x < 2 powr of_int (expo x + 1)"
proof -
  have "x < 2 powr (of_int \<lfloor>log 2 x\<rfloor> + 1)"
    using assms floor_log_eq_powr_iff [of x 2 "\<lfloor>log 2 x\<rfloor>"] by simp
  also have "\<dots> \<le> 2 powr of_int (expo x + 1)"
    by (rule powr_mono) (simp_all add: expo_def)
  finally show ?thesis .
qed

lemma expo_lower: assumes "0 < x" "- 1022 < expo x" shows "2 powr of_int (expo x) \<le> x"
proof -
  from assms(2) have "expo x = \<lfloor>log 2 x\<rfloor>" by (simp add: expo_def max_def split: if_splits)
  then show ?thesis
    using assms floor_log_eq_powr_iff [of x 2 "\<lfloor>log 2 x\<rfloor>"] by simp
qed

lemma expo_eqI:
  assumes "2 powr of_int k \<le> x" "x < 2 powr of_int (k + 1)" "- 1022 \<le> k"
  shows "expo x = k"
proof -
  have "0 < x" using assms(1) by (rule less_le_trans [rotated]) simp
  then have "\<lfloor>log 2 x\<rfloor> = k"
    using assms floor_log_eq_powr_iff [of x 2 k] by simp
  then show ?thesis using assms(3) by (simp add: expo_def)
qed

lemma two_powr_shift: "2 ^ n * 2 powr of_int (k - int n) = (2::real) powr of_int k"
proof -
  have "(2::real) ^ n = 2 powr of_int (int n)" by (simp add: powr_realpow)
  then have "2 ^ n * 2 powr of_int (k - int n) = (2::real) powr (of_int (int n) + of_int (k - int n))"
    by (simp only: powr_add)
  also have "of_int (int n) + of_int (k - int n) = (of_int k :: real)" by simp
  finally show ?thesis .
qed

lemma ulp_scale52: "2 ^ 52 * ulp x = 2 powr of_int (expo x)"
  unfolding ulp_def using two_powr_shift [of 52 "expo x"] by simp

lemma ulp_scale53: "2 ^ 53 * ulp x = 2 powr of_int (expo x + 1)"
proof -
  have "expo x - 52 = expo x + 1 - int 53" by simp
  then show ?thesis
    unfolding ulp_def using two_powr_shift [of 53 "expo x + 1"] by (simp only:)
qed

lemma of_int_le_real: "a \<le> b \<Longrightarrow> (of_int a :: real) \<le> of_int b"
  by simp

lemma quot_upper: assumes "0 < x" shows "x / ulp x < 2 ^ 53"
proof -
  have "x < 2 powr of_int (expo x + 1)" by (rule expo_upper [OF assms])
  also have "\<dots> = 2 ^ 53 * ulp x" by (rule ulp_scale53 [symmetric])
  finally show ?thesis
    using ulp_pos [of x] by (simp add: pos_divide_less_eq)
qed

lemma quot_lower: assumes "0 < x" "- 1022 < expo x" shows "2 ^ 52 \<le> x / ulp x"
proof -
  have "2 ^ 52 * ulp x = 2 powr of_int (expo x)" by (rule ulp_scale52)
  also have "\<dots> \<le> x" by (rule expo_lower [OF assms])
  finally show ?thesis
    using ulp_pos [of x] by (simp add: pos_le_divide_eq)
qed

lemma nearest_err: "\<bar>nearest x - x\<bar> \<le> ulp x / 2"
proof -
  have "\<bar>of_int (rne (x / ulp x)) - x / ulp x\<bar> \<le> 1 / 2" by (rule rne_err)
  then have "\<bar>of_int (rne (x / ulp x)) - x / ulp x\<bar> * ulp x \<le> 1 / 2 * ulp x"
    using ulp_pos [of x] by (intro mult_right_mono) simp_all
  moreover have "\<bar>of_int (rne (x / ulp x)) - x / ulp x\<bar> * ulp x = \<bar>nearest x - x\<bar>"
  proof -
    have "\<bar>of_int (rne (x / ulp x)) - x / ulp x\<bar> * ulp x
          = \<bar>(of_int (rne (x / ulp x)) - x / ulp x) * ulp x\<bar>"
      using ulp_pos [of x] by (simp add: abs_mult)
    also have "(of_int (rne (x / ulp x)) - x / ulp x) * ulp x = nearest x - x"
      using ulp_pos [of x] by (simp add: nearest_def left_diff_distrib)
    finally show ?thesis .
  qed
  ultimately show ?thesis by simp
qed

lemma nearest_nonneg: "0 \<le> x \<Longrightarrow> 0 \<le> nearest x"
  unfolding nearest_def using ulp_pos [of x]
  by (intro mult_nonneg_nonneg) (simp_all add: rne_ge)

lemma nearest_upper: assumes "0 < x" shows "nearest x \<le> 2 powr of_int (expo x + 1)"
proof -
  have "rne (x / ulp x) \<le> 2 ^ 53"
    using quot_upper [OF assms] by (intro rne_le) simp
  then have "(of_int (rne (x / ulp x)) :: real) \<le> of_int (2 ^ 53)" by (rule of_int_le_real)
  then have "(of_int (rne (x / ulp x)) :: real) \<le> 2 ^ 53" by simp
  then have "nearest x \<le> 2 ^ 53 * ulp x"
    unfolding nearest_def using ulp_pos [of x] by (intro mult_right_mono) simp_all
  also have "\<dots> = 2 powr of_int (expo x + 1)" by (rule ulp_scale53)
  finally show ?thesis .
qed

lemma nearest_lower: assumes "0 < x" "- 1022 < expo x" shows "2 powr of_int (expo x) \<le> nearest x"
proof -
  have "2 ^ 52 \<le> rne (x / ulp x)"
    using quot_lower [OF assms] by (intro rne_ge) simp
  then have "(of_int (2 ^ 52) :: real) \<le> of_int (rne (x / ulp x))" by (rule of_int_le_real)
  then have "(2 ^ 52 :: real) \<le> of_int (rne (x / ulp x))" by simp
  then have "2 ^ 52 * ulp x \<le> nearest x"
    unfolding nearest_def using ulp_pos [of x] by (intro mult_right_mono) simp_all
  then show ?thesis by (simp only: ulp_scale52)
qed

lemma nearest_mono: assumes "0 < x" "x \<le> y" shows "nearest x \<le> nearest y"
proof (cases "expo x = expo y")
  case True
  then have u: "ulp x = ulp y" by (simp add: ulp_def)
  have "x / ulp y \<le> y / ulp y" using assms ulp_pos [of y] by (simp add: divide_right_mono)
  then have "rne (x / ulp y) \<le> rne (y / ulp y)" by (rule rne_mono)
  then have "(of_int (rne (x / ulp y)) :: real) \<le> of_int (rne (y / ulp y))" by simp
  then show ?thesis
    unfolding nearest_def u using ulp_pos [of y] by (intro mult_right_mono) simp_all
next
  case False
  with expo_mono [OF assms] have lt: "expo x < expo y" by simp
  have y: "0 < y" using assms by simp
  have "- 1022 < expo y" using lt expo_ge [of x] by simp
  then have "2 powr of_int (expo y) \<le> nearest y" by (rule nearest_lower [OF y])
  moreover have "nearest x \<le> 2 powr of_int (expo x + 1)" by (rule nearest_upper [OF assms(1)])
  moreover have "2 powr of_int (expo x + 1) \<le> (2::real) powr of_int (expo y)"
    using lt by (intro powr_mono) simp_all
  ultimately show ?thesis by linarith
qed


lemma rnd_pos_not_NaN: "rnd_pos x \<noteq> NaN" and rnd_pos_not_NInf: "rnd_pos x \<noteq> NInf"
  by (simp_all add: rnd_pos_def)

lemma rnd_not_NaN [simp]: "rnd x \<noteq> NaN"
  unfolding rnd_def using rnd_pos_not_NaN [of x] rnd_pos_not_NaN [of "- x"]
  by (auto split: double.splits)

lemma rnd_zero [simp]: "rnd 0 = Fin 0"
  by (simp add: rnd_def)

lemma rnd_uminus: "rnd (- x) = - rnd x"
  unfolding rnd_def using rnd_pos_not_NaN [of x] rnd_pos_not_NInf [of x]
    rnd_pos_not_NaN [of "- x"] rnd_pos_not_NInf [of "- x"]
  by (cases "rnd_pos x"; cases "rnd_pos (- x)"; cases "0 < x"; cases "x = 0") auto

lemma rnd_pos_mono: assumes "0 < x" "x \<le> y" shows "rnd_pos x \<le> rnd_pos y"
  using nearest_mono [OF assms] by (auto simp: rnd_pos_def)

lemma rnd_pos_nonneg: assumes "0 < x" shows "Fin 0 \<le> rnd_pos x"
  using nearest_nonneg [of x] assms by (auto simp: rnd_pos_def)

lemma double_le_trans: "(a::double) \<le> b \<Longrightarrow> b \<le> c \<Longrightarrow> a \<le> c"
  by (cases a; cases b; cases c) auto

lemma double_neg_le: "(a::double) \<le> b \<Longrightarrow> - b \<le> - a"
  by (cases a; cases b) auto

lemma rnd_neg_eq: "x < 0 \<Longrightarrow> rnd x = - rnd_pos (- x)"
  using rnd_pos_not_NaN [of "- x"] rnd_pos_not_NInf [of "- x"]
  by (cases "rnd_pos (- x)") (auto simp: rnd_def)

lemma rnd_pos_eq: "0 < x \<Longrightarrow> rnd x = rnd_pos x"
  by (simp add: rnd_def)

lemma rnd_mono: assumes "x \<le> y" shows "rnd x \<le> rnd y"
proof -
  consider "0 < x" | "x = 0" "y = 0" | "x = 0" "0 < y" | "x < 0" "y < 0" | "x < 0" "y = 0" | "x < 0" "0 < y"
    using assms by linarith
  then show ?thesis
  proof cases
    case 1
    then show ?thesis using rnd_pos_mono [OF 1 assms] assms by (simp add: rnd_pos_eq)
  next
    case 2
    then show ?thesis by simp
  next
    case 3
    then show ?thesis using rnd_pos_nonneg [of y] by (simp add: rnd_pos_eq)
  next
    case 4
    then have "rnd_pos (- y) \<le> rnd_pos (- x)" using assms by (intro rnd_pos_mono) simp_all
    then show ?thesis using 4 by (simp add: rnd_neg_eq double_neg_le)
  next
    case 5
    then have "Fin 0 \<le> rnd_pos (- x)" by (intro rnd_pos_nonneg) simp
    then have "- rnd_pos (- x) \<le> - Fin 0" by (rule double_neg_le)
    then show ?thesis using 5 by (simp add: rnd_neg_eq)
  next
    case 6
    then have "Fin 0 \<le> rnd_pos (- x)" by (intro rnd_pos_nonneg) simp
    then have "- rnd_pos (- x) \<le> - Fin 0" by (rule double_neg_le)
    moreover have "Fin 0 \<le> rnd_pos y" using 6 by (intro rnd_pos_nonneg)
    ultimately have "- rnd_pos (- x) \<le> rnd_pos y" using double_le_trans [of _ "Fin 0"] by simp
    then show ?thesis using 6 by (simp add: rnd_neg_eq rnd_pos_eq)
  qed
qed

text \<open>Exactness on the grid.\<close>

lemma nearest_exact:
  assumes "0 < m" "m < 2 ^ 53" "- 1074 \<le> k"
  shows "nearest (of_int m * 2 powr of_int k) = of_int m * 2 powr of_int k"
proof -
  define x :: real where "x = of_int m * 2 powr of_int k"
  define u where "u = ulp x"
  have upos: "0 < u" by (simp add: u_def ulp_pos)
  have xpos: "0 < x" using assms(1) by (simp add: x_def)
  have "(of_int m :: real) < of_int (2 ^ 53)" using assms(2) by (simp only: of_int_less_iff)
  then have "(of_int m :: real) < 2 ^ 53" by simp
  then have "x < 2 ^ 53 * 2 powr of_int k"
    unfolding x_def by (intro mult_strict_right_mono) simp_all
  also have "2 ^ 53 * 2 powr of_int k = (2::real) powr of_int (k + 53)"
    using two_powr_shift [of 53 "k + 53"] by simp
  finally have "log 2 x < of_int (k + 53)"
    using xpos by (simp add: log_less_iff)
  then have "\<lfloor>log 2 x\<rfloor> < k + 53" by (simp only: floor_less_iff)
  then have e: "expo x - 52 \<le> k" using assms(3) by (simp add: expo_def)
  define j where "j = nat (k - (expo x - 52))"
  have k: "of_int k = of_int (expo x - 52) + (of_int (int j) :: real)"
    using e by (simp add: j_def)
  have "(2::real) powr of_int k = 2 powr (of_int (expo x - 52) + of_int (int j))"
    by (simp only: k)
  also have "\<dots> = 2 powr of_int (expo x - 52) * 2 powr of_int (int j)"
    by (simp only: powr_add)
  also have "\<dots> = u * 2 ^ j"
    by (simp add: u_def ulp_def powr_realpow)
  finally have pk: "(2::real) powr of_int k = u * 2 ^ j" .
  have xu: "x = of_int (m * 2 ^ j) * u" by (simp add: x_def pk)
  then have "x / u = of_int (m * 2 ^ j)" using upos by simp
  then have "rne (x / u) = m * 2 ^ j" by (simp only: rne_of_int)
  then have "nearest x = of_int (m * 2 ^ j) * u" by (simp only: nearest_def u_def)
  then have "nearest x = x" by (simp only: xu [symmetric])
  then show ?thesis by (simp only: x_def)
qed

lemma rnd_exact_pos:
  assumes "0 < m" "m < 2 ^ 53" "- 1074 \<le> k" "of_int m * 2 powr of_int k < (2::real) ^ 1024"
  shows "rnd (of_int m * 2 powr of_int k) = Fin (of_int m * 2 powr of_int k)"
proof -
  have "0 < (of_int m * 2 powr of_int k :: real)" using assms(1) by simp
  then show ?thesis
    using assms(4) nearest_exact [OF assms(1-3)] by (simp add: rnd_pos_eq rnd_pos_def)
qed

lemma two_powr_le_1023: "k \<le> 971 \<Longrightarrow> 2 ^ 53 * 2 powr of_int k \<le> (2::real) ^ 1024"
proof -
  assume k: "k \<le> 971"
  have "2 ^ 53 * 2 powr of_int k = (2::real) powr of_int (k + 53)"
    using two_powr_shift [of 53 "k + 53"] by simp
  also have "\<dots> \<le> 2 powr of_int 1024" using k by (intro powr_mono) simp_all
  also have "\<dots> = 2 ^ 1024" using powr_realpow [of 2 1024] by simp
  finally show ?thesis .
qed

lemma rnd_exact:
  assumes "\<bar>m\<bar> < 2 ^ 53" "- 1074 \<le> k" "k \<le> 971"
  shows "rnd (of_int m * 2 powr of_int k) = Fin (of_int m * 2 powr of_int k)"
proof -
  have bound: "of_int n * 2 powr of_int k < (2::real) ^ 1024" if "0 < n" "n < 2 ^ 53" for n :: int
  proof -
    have "(of_int n :: real) < of_int (2 ^ 53)" using that(2) by (simp only: of_int_less_iff)
    then have "(of_int n :: real) < 2 ^ 53" by simp
    then have "(of_int n :: real) * 2 powr of_int k < 2 ^ 53 * 2 powr of_int k"
      by (intro mult_strict_right_mono) simp_all
    with two_powr_le_1023 [OF assms(3)] show ?thesis by linarith
  qed
  consider "0 < m" | "m = 0" | "m < 0" by linarith
  then show ?thesis
  proof cases
    case 1
    then show ?thesis using assms bound [of m] by (intro rnd_exact_pos) simp_all
  next
    case 2
    then show ?thesis by simp
  next
    case 3
    then have "rnd (of_int (- m) * 2 powr of_int k) = Fin (of_int (- m) * 2 powr of_int k)"
      using assms bound [of "- m"] by (intro rnd_exact_pos) simp_all
    then have "rnd (- (of_int m * 2 powr of_int k)) = Fin (- (of_int m * 2 powr of_int k))"
      by simp
    then have "- rnd (of_int m * 2 powr of_int k) = Fin (- (of_int m * 2 powr of_int k))"
      by (simp only: rnd_uminus)
    then show ?thesis by (cases "rnd (of_int m * 2 powr of_int k)") simp_all
  qed
qed

lemma rnd_int: "\<bar>i\<bar> < 2 ^ 53 \<Longrightarrow> rnd (of_int i) = Fin (of_int i)"
  using rnd_exact [of i 0] by simp

lemma rnd_int_div_pow2:
  assumes "\<bar>i\<bar> < 2 ^ 53" "n \<le> 1074"
  shows "rnd (of_int i / 2 ^ n) = Fin (of_int i / 2 ^ n)"
proof -
  have "(2::real) powr of_int (- int n) = 1 / 2 ^ n"
    by (simp add: powr_minus powr_realpow divide_inverse)
  then show ?thesis using rnd_exact [of i "- int n"] assms by simp
qed

lemma rnd_int_times_pow2:
  assumes "\<bar>i\<bar> < 2 ^ 53" "n \<le> 970"
  shows "rnd (of_int i * 2 ^ n) = Fin (of_int i * 2 ^ n)"
proof -
  have "(2::real) powr of_int (int n) = 2 ^ n"
    by (simp add: powr_realpow)
  then show ?thesis using rnd_exact [of i "int n"] assms by simp
qed

lemma rnd_1 [simp]: "rnd 1 = Fin 1" using rnd_int [of 1] by simp
lemma rnd_2 [simp]: "rnd 2 = Fin 2" using rnd_int [of 2] by simp
lemma rnd_half [simp]: "rnd (1 / 2) = Fin (1 / 2)" using rnd_int_div_pow2 [of 1 1] by simp


lemma rne_near: assumes "\<bar>q - of_int n\<bar> < 1 / 2" shows "rne q = n"
proof -
  have "\<bar>of_int (rne q) - q\<bar> \<le> 1 / 2" by (rule rne_err)
  with assms have "\<bar>(of_int (rne q) :: real) - of_int n\<bar> < 1" by linarith
  then have "\<bar>(of_int (rne q - n) :: real)\<bar> < 1" by simp
  then have "\<bar>rne q - n\<bar> < 1" by (simp only: of_int_abs [symmetric] of_int_less_1_iff)
  then show ?thesis by simp
qed

lemma two_powr_pos_power: "(2::real) powr of_int (int n) = 2 ^ n"
  by (simp add: powr_realpow)

lemma two_powr_neg_power: "(2::real) powr of_int (- int n) = 1 / 2 ^ n"
  by (simp add: powr_minus powr_realpow divide_inverse)

text \<open>Rounding inside a known binade.\<close>

lemma rnd_binade:
  assumes "2 powr of_int k \<le> x" "x < 2 powr of_int (k + 1)" "- 1022 \<le> k" "k \<le> 1022"
  shows "rnd x = Fin (of_int (rne (x / 2 powr of_int (k - 52))) * 2 powr of_int (k - 52))"
proof -
  have xpos: "0 < x" using assms(1) by (rule less_le_trans [rotated]) simp
  have e: "expo x = k" by (rule expo_eqI [OF assms(1-3)])
  then have u: "ulp x = 2 powr of_int (k - 52)" by (simp add: ulp_def)
  have "nearest x \<le> 2 powr of_int (expo x + 1)" by (rule nearest_upper [OF xpos])
  also have "\<dots> \<le> 2 powr of_int 1023" using assms(4) e by (intro powr_mono) simp_all
  also have "\<dots> = 2 ^ 1023" using two_powr_pos_power [of 1023] by simp
  also have "\<dots> < (2::real) ^ 1024" by (intro power_strict_increasing) simp_all
  finally have "nearest x < 2 ^ 1024" .
  then show ?thesis using xpos by (simp add: rnd_pos_eq rnd_pos_def nearest_def u)
qed

lemma rnd_subnormal:
  assumes "0 < x" "x < 2 powr of_int (- 1022)"
  shows "rnd x = Fin (of_int (rne (x / 2 powr of_int (- 1074))) * 2 powr of_int (- 1074))"
proof -
  have "log 2 x < of_int (- 1022)" using assms by (simp add: log_less_iff)
  then have "\<lfloor>log 2 x\<rfloor> < - 1022" by (simp only: floor_less_iff)
  then have e: "expo x = - 1022" by (simp add: expo_def)
  then have u: "ulp x = 2 powr of_int (- 1074)" by (simp add: ulp_def)
  have "nearest x \<le> 2 powr of_int (expo x + 1)" by (rule nearest_upper [OF assms(1)])
  also have "\<dots> \<le> 2 powr of_int 1023" using e by (intro powr_mono) simp_all
  also have "\<dots> = 2 ^ 1023" using two_powr_pos_power [of 1023] by simp
  also have "\<dots> < (2::real) ^ 1024" by (intro power_strict_increasing) simp_all
  finally have "nearest x < 2 ^ 1024" .
  then show ?thesis using assms(1) by (simp add: rnd_pos_eq rnd_pos_def nearest_def u)
qed

lemma div_two_powr_neg: "(x::real) / 2 powr of_int (- int n) = x * 2 ^ n"
  by (simp only: two_powr_neg_power) simp

lemma below_half_scaled:
  fixes x :: real
  assumes "x < 1 / 2 ^ Suc n" shows "x * 2 ^ n < 1 / 2"
proof -
  have "x * 2 ^ n < 1 / 2 ^ Suc n * 2 ^ n"
    using assms by (intro mult_strict_right_mono) simp_all
  then show ?thesis by simp
qed

lemma rnd_underflow: assumes "0 < x" "x < 1 / 2 ^ 1075" shows "rnd x = Fin 0"
proof -
  have "(1::real) / 2 ^ 1075 \<le> 1 / 2 ^ 1022"
    by (intro divide_left_mono power_increasing) simp_all
  also have "\<dots> = 2 powr of_int (- int 1022)" by (simp only: two_powr_neg_power)
  finally have small: "x < 2 powr of_int (- 1022)" using assms(2) by simp
  have "x < 1 / 2 ^ Suc 1074" using assms(2) by simp
  then have "x * 2 ^ 1074 < 1 / 2" by (rule below_half_scaled)
  moreover have "0 \<le> x * 2 ^ 1074" using assms(1) by simp
  moreover have "x / 2 powr of_int (- 1074) = x * 2 ^ 1074"
    using div_two_powr_neg [of x 1074] by simp
  ultimately have "\<bar>x / 2 powr of_int (- 1074) - of_int 0\<bar> < 1 / 2" by simp
  then have "rne (x / 2 powr of_int (- 1074)) = 0" by (rule rne_near)
  then show ?thesis using rnd_subnormal [OF assms(1) small] by simp
qed

lemma rnd_overflow: assumes "2 ^ 1024 \<le> x" shows "rnd x = PInf"
proof -
  have xpos: "0 < x" using assms by (rule less_le_trans [rotated]) simp
  have "(2::real) powr of_int 1024 \<le> x" using assms two_powr_pos_power [of 1024] by simp
  then have "of_int 1024 \<le> log 2 x" using xpos by (simp add: le_log_iff)
  then have "1024 \<le> \<lfloor>log 2 x\<rfloor>" by (simp only: le_floor_iff)
  then have e: "1024 \<le> expo x" by (simp add: expo_def)
  then have "- 1022 < expo x" by simp
  from nearest_lower [OF xpos this] have "2 powr of_int (expo x) \<le> nearest x" .
  moreover have "(2::real) powr of_int 1024 \<le> 2 powr of_int (expo x)"
    using e by (intro powr_mono) simp_all
  ultimately have "2 ^ 1024 \<le> nearest x" using two_powr_pos_power [of 1024] by simp
  then show ?thesis using xpos by (simp add: rnd_pos_eq rnd_pos_def)
qed

text \<open>A rounded value rounds to itself.\<close>

lemma rnd_pos_idem: assumes "0 < x" "rnd_pos x = Fin y" shows "rnd y = Fin y"
proof -
  define n where "n = rne (x / ulp x)"
  have y: "y = of_int n * ulp x" and fin: "y < 2 ^ 1024"
    using assms(2) by (auto simp: rnd_pos_def nearest_def n_def split: if_splits)
  have n0: "0 \<le> n" using assms(1) ulp_pos [of x] unfolding n_def by (intro rne_ge) simp
  have n53: "n \<le> 2 ^ 53" using quot_upper [OF assms(1)] unfolding n_def by (intro rne_le) simp
  have k: "- 1074 \<le> expo x - 52" using expo_ge [of x] by simp
  consider "n = 0" | "0 < n" "n < 2 ^ 53" | "n = 2 ^ 53" using n0 n53 by linarith
  then show ?thesis
  proof cases
    case 1
    then show ?thesis by (simp add: y)
  next
    case 2
    have "rnd (of_int n * 2 powr of_int (expo x - 52)) = Fin (of_int n * 2 powr of_int (expo x - 52))"
      using 2 k fin by (intro rnd_exact_pos) (simp_all add: y ulp_def)
    then show ?thesis by (simp add: y ulp_def)
  next
    case 3
    have "(of_int n :: real) = 2 ^ 53" using 3 by simp
    then have "y = 2 ^ 53 * ulp x" by (simp only: y)
    then have y': "y = of_int 1 * 2 powr of_int (expo x + 1)"
      by (simp only: ulp_scale53 of_int_1 mult_1)
    have "rnd (of_int 1 * 2 powr of_int (expo x + 1)) = Fin (of_int 1 * 2 powr of_int (expo x + 1))"
      using fin expo_ge [of x] unfolding y' by (intro rnd_exact_pos) simp_all
    then show ?thesis by (simp only: y')
  qed
qed

lemma rnd_idem: assumes "rnd x = Fin y" shows "rnd y = Fin y"
proof -
  consider "x = 0" | "0 < x" | "x < 0" by linarith
  then show ?thesis
  proof cases
    case 1
    with assms show ?thesis by auto
  next
    case 2
    with assms show ?thesis by (intro rnd_pos_idem [of x]) (simp_all add: rnd_pos_eq)
  next
    case 3
    with assms have "- rnd_pos (- x) = Fin y" by (simp add: rnd_neg_eq)
    then have "rnd_pos (- x) = Fin (- y)" by (cases "rnd_pos (- x)") simp_all
    then have "rnd (- y) = Fin (- y)" using 3 by (intro rnd_pos_idem [of "- x"]) simp_all
    then have "- rnd y = Fin (- y)" by (simp only: rnd_uminus)
    then show ?thesis by (cases "rnd y") simp_all
  qed
qed


lemma rnd_numeral [simp]:
  "(numeral n :: int) < 2 ^ 53 \<Longrightarrow> rnd (numeral n) = Fin (numeral n)"
  using rnd_int [of "numeral n"] by simp

lemma rnd_neg_numeral [simp]:
  "(numeral n :: int) < 2 ^ 53 \<Longrightarrow> rnd (- numeral n) = Fin (- numeral n)"
  using rnd_int [of "- numeral n"] by simp

lemma rnd_neg_1 [simp]: "rnd (- 1) = Fin (- 1)" using rnd_int [of "- 1"] by simp
lemma rnd_quarter [simp]: "rnd (1 / 4) = Fin (1 / 4)" using rnd_int_div_pow2 [of 1 2] by simp

lemma rnd_between:
  assumes "a \<le> x" "x \<le> b" "rnd a = Fin a" "rnd b = Fin b"
  shows "\<exists>y. rnd x = Fin y \<and> a \<le> y \<and> y \<le> b"
proof -
  from rnd_mono [OF assms(1)] rnd_mono [OF assms(2)]
  have "Fin a \<le> rnd x" "rnd x \<le> Fin b" by (simp_all add: assms(3,4))
  then show ?thesis by (cases "rnd x") simp_all
qed

lemma rnd_nonneg: assumes "0 \<le> x" shows "rnd x = PInf \<or> (\<exists>y\<ge>0. rnd x = Fin y)"
proof -
  from rnd_mono [OF assms] have "Fin 0 \<le> rnd x" by simp
  then show ?thesis by (cases "rnd x") simp_all
qed


text \<open>Adding one to a double does not overflow.\<close>

lemma nearest_fixed: assumes "0 < y" "rnd y = Fin y" shows "nearest y = y" "y < 2 ^ 1024"
  using assms by (auto simp: rnd_pos_eq rnd_pos_def split: if_splits)

lemma rnd_add_one_big:
  assumes "rnd y = Fin y" and "2 ^ 54 \<le> y"
  shows "rnd (1 + y) = Fin y"
proof -
  have ypos: "0 < y" using assms(2) by (rule less_le_trans [rotated]) simp
  note fixed = nearest_fixed [OF ypos assms(1)]
  define n where "n = rne (y / ulp y)"
  define u where "u = ulp y"
  have upos: "0 < u" by (simp add: u_def ulp_pos)
  have y: "y = of_int n * u" using fixed(1) by (simp add: nearest_def n_def u_def)
  have "(2::real) powr of_int 54 \<le> y" using assms(2) two_powr_pos_power [of 54] by simp
  then have "of_int 54 \<le> log 2 y" using ypos by (simp add: le_log_iff)
  then have "54 \<le> \<lfloor>log 2 y\<rfloor>" by (simp only: le_floor_iff)
  then have e: "54 \<le> expo y" by (simp add: expo_def)
  have "(2::real) powr of_int 2 \<le> 2 powr of_int (expo y - 52)"
    using e by (intro powr_mono) simp_all
  then have u4: "4 \<le> u" using two_powr_pos_power [of 2] by (simp add: u_def ulp_def)
  have "y / u < 2 ^ 53" using quot_upper [OF ypos] by (simp add: u_def)
  then have "(of_int n :: real) < 2 ^ 53" using upos by (simp add: y)
  then have "(of_int n :: real) < of_int (2 ^ 53)" by simp
  then have "n < 2 ^ 53" by (simp only: of_int_less_iff)
  then have "n + 1 \<le> 2 ^ 53" by simp
  then have "(of_int (n + 1) :: real) \<le> of_int (2 ^ 53)" by (rule of_int_le_real)
  then have "(of_int n :: real) + 1 \<le> 2 ^ 53" by simp
  then have "(of_int n + 1) * u \<le> 2 ^ 53 * u" using upos by (intro mult_right_mono) simp_all
  then have "y + u \<le> 2 ^ 53 * u" by (simp add: y algebra_simps)
  then have "1 + y < 2 ^ 53 * u" using u4 by linarith
  then have up: "1 + y < 2 powr of_int (expo y + 1)" by (simp only: u_def ulp_scale53)
  have "- 1022 < expo y" using e by simp
  from expo_lower [OF ypos this] have lo: "2 powr of_int (expo y) \<le> 1 + y" by linarith
  have e': "expo (1 + y) = expo y" using lo up e by (intro expo_eqI) simp_all
  then have u': "ulp (1 + y) = u" by (simp add: ulp_def u_def)
  have "(1 + y) / u - of_int n = 1 / u" using upos by (simp add: y add_divide_distrib)
  moreover have "1 / u \<le> 1 / 4" using u4 by (intro divide_left_mono) simp_all
  moreover have "0 < 1 / u" using upos by simp
  ultimately have "\<bar>(1 + y) / u - of_int n\<bar> < 1 / 2" by linarith
  then have "rne ((1 + y) / u) = n" by (rule rne_near)
  then have "nearest (1 + y) = of_int n * u" by (simp only: nearest_def u')
  then have "nearest (1 + y) = y" by (simp only: y [symmetric])
  then show ?thesis using fixed(2) ypos by (simp add: rnd_pos_eq rnd_pos_def)
qed

lemma rnd_add_one_finite:
  assumes "rnd y = Fin y" and "0 \<le> y"
  shows "\<exists>s. rnd (1 + y) = Fin s \<and> 1 \<le> s \<and> y \<le> s"
proof (cases "2 ^ 54 \<le> y")
  case True
  have "(1::real) \<le> 2 ^ 54" by simp
  with True have "1 \<le> y" by linarith
  with rnd_add_one_big [OF assms(1) True] show ?thesis by simp
next
  case False
  have r: "rnd (2 ^ 55) = Fin (2 ^ 55)" using rnd_int_times_pow2 [of 1 55] by simp
  have "1 + y \<le> 2 ^ 55" using False by simp
  with rnd_mono [of "1 + y" "2 ^ 55"] have up: "rnd (1 + y) \<le> Fin (2 ^ 55)" by (simp only: r)
  from rnd_mono [of 1 "1 + y"] assms(2) have lo: "Fin 1 \<le> rnd (1 + y)" by simp
  from rnd_mono [of y "1 + y"] have lo': "Fin y \<le> rnd (1 + y)" by (simp add: assms(1))
  from up lo lo' show ?thesis by (cases "rnd (1 + y)") simp_all
qed

lemma rnd_one_minus_finite:
  assumes "rnd g = Fin g"
  shows "\<exists>t. rnd (1 - g) = Fin t"
proof (cases "g \<le> 0")
  case True
  have "rnd (- g) = Fin (- g)" using assms by (simp add: rnd_uminus)
  from rnd_add_one_finite [OF this] True show ?thesis by auto
next
  case False
  then have "- g \<le> 1 - g" "1 - g \<le> 1" by simp_all
  moreover have "rnd (- g) = Fin (- g)" using assms by (simp add: rnd_uminus)
  ultimately have "\<exists>t. rnd (1 - g) = Fin t \<and> - g \<le> t \<and> t \<le> 1"
    by (intro rnd_between) simp_all
  then show ?thesis by blast
qed


text \<open>The error of one rounding.\<close>

lemma rnd_err_pos:
  assumes "0 < x" and "x < 2 powr of_int (k + 1)" and "- 1022 \<le> k" and "k \<le> 1022"
  shows "\<exists>y. rnd x = Fin y \<and> \<bar>y - x\<bar> \<le> 2 powr of_int (k - 53)"
proof -
  have "log 2 x < of_int (k + 1)" using assms(1,2) by (simp add: log_less_iff)
  then have "\<lfloor>log 2 x\<rfloor> < k + 1" by (simp only: floor_less_iff)
  then have e: "expo x \<le> k" using assms(3) by (simp add: expo_def)
  have "nearest x \<le> 2 powr of_int (expo x + 1)" by (rule nearest_upper [OF assms(1)])
  also have "\<dots> \<le> 2 powr of_int 1023" using assms(4) e by (intro powr_mono) simp_all
  also have "\<dots> = 2 ^ 1023" using two_powr_pos_power [of 1023] by simp
  also have "\<dots> < (2::real) ^ 1024" by (intro power_strict_increasing) simp_all
  finally have fin: "rnd x = Fin (nearest x)" using assms(1) by (simp add: rnd_pos_eq rnd_pos_def)
  have "ulp x / 2 = 2 powr of_int (expo x - 53)"
  proof -
    have "2 powr of_int (expo x - 53) * 2 = (2::real) powr of_int (expo x - 52)"
      using two_powr_shift [of 1 "expo x - 52"] by (simp add: mult.commute)
    then show ?thesis by (simp add: ulp_def)
  qed
  also have "\<dots> \<le> 2 powr of_int (k - 53)" using e by (intro powr_mono) simp_all
  finally have "\<bar>nearest x - x\<bar> \<le> 2 powr of_int (k - 53)"
    using nearest_err [of x] by linarith
  with fin show ?thesis by simp
qed

lemma rnd_err:
  assumes "\<bar>x\<bar> < 2 powr of_int (k + 1)" and "- 1022 \<le> k" and "k \<le> 1022"
  shows "\<exists>y. rnd x = Fin y \<and> \<bar>y - x\<bar> \<le> 2 powr of_int (k - 53)"
proof -
  consider "x = 0" | "0 < x" | "x < 0" by linarith
  then show ?thesis
  proof cases
    case 1
    then show ?thesis by simp
  next
    case 2
    with assms show ?thesis by (intro rnd_err_pos) simp_all
  next
    case 3
    with assms have "\<exists>y. rnd (- x) = Fin y \<and> \<bar>y - (- x)\<bar> \<le> 2 powr of_int (k - 53)"
      by (intro rnd_err_pos) simp_all
    then obtain y where y: "rnd (- x) = Fin y" "\<bar>y + x\<bar> \<le> 2 powr of_int (k - 53)" by auto
    from y(1) have "- rnd x = Fin y" by (simp only: rnd_uminus)
    then have "rnd x = Fin (- y)" by (cases "rnd x") simp_all
    moreover have "\<bar>- y - x\<bar> = \<bar>y + x\<bar>" by simp
    ultimately show ?thesis using y(2) by auto
  qed
qed

lemma rnd_err_2: assumes "\<bar>x\<bar> < 2" shows "\<exists>y. rnd x = Fin y \<and> \<bar>y - x\<bar> \<le> 1 / 2 ^ 53"
proof -
  have a: "\<bar>x\<bar> < 2 powr of_int (0 + 1)" using assms by simp
  have b: "(- 1022::int) \<le> 0" "(0::int) \<le> 1022" by simp_all
  have "(0::int) - 53 = - int 53" by simp
  then have p: "(2::real) powr of_int (0 - 53) = 1 / 2 ^ 53" by (simp only: two_powr_neg_power)
  from rnd_err [OF a b] show ?thesis unfolding p .
qed

lemma rnd_err_4: assumes "\<bar>x\<bar> < 4" shows "\<exists>y. rnd x = Fin y \<and> \<bar>y - x\<bar> \<le> 1 / 2 ^ 52"
proof -
  have "(2::real) powr of_int (1 + 1) = 4" using two_powr_pos_power [of 2] by simp
  then have a: "\<bar>x\<bar> < 2 powr of_int (1 + 1)" using assms by simp
  have b: "(- 1022::int) \<le> 1" "(1::int) \<le> 1022" by simp_all
  have "(1::int) - 53 = - int 52" by simp
  then have p: "(2::real) powr of_int (1 - 53) = 1 / 2 ^ 52" by (simp only: two_powr_neg_power)
  from rnd_err [OF a b] show ?thesis unfolding p .
qed

text \<open>In the normal range the error is relative.\<close>

lemma rnd_rel_err:
  assumes "2 powr of_int (- 1022) \<le> x" and "rnd x = Fin y"
  shows "\<bar>y - x\<bar> \<le> x / 2 ^ 53"
proof -
  have xpos: "0 < x" using assms(1) by (rule less_le_trans [rotated]) simp
  have y: "y = nearest x" using assms(2) xpos by (simp add: rnd_pos_eq rnd_pos_def split: if_splits)
  have "of_int (- 1022) \<le> log 2 x" using assms(1) xpos by (simp add: le_log_iff)
  then have "- 1022 \<le> \<lfloor>log 2 x\<rfloor>" by (simp only: le_floor_iff)
  then have "expo x = \<lfloor>log 2 x\<rfloor>" by (simp add: expo_def)
  then have "2 powr of_int (expo x) \<le> x"
    using xpos floor_log_eq_powr_iff [of x 2 "\<lfloor>log 2 x\<rfloor>"] by simp
  then have "2 ^ 52 * ulp x \<le> x" by (simp only: ulp_scale52)
  then have "ulp x / 2 \<le> x / 2 ^ 53" by simp
  with nearest_err [of x] show ?thesis unfolding y by linarith
qed

text \<open>Below the normal range the sum of two doubles is a double.\<close>

lemma subnormal_grid:
  assumes "0 \<le> a" and "rnd a = Fin a" and "a < 2 powr of_int (- 1022)"
  shows "\<exists>n. 0 \<le> n \<and> a = of_int n * 2 powr of_int (- 1074)"
proof (cases "a = 0")
  case True
  then show ?thesis by (intro exI [of _ 0]) simp
next
  case False
  with assms(1) have apos: "0 < a" by simp
  have "log 2 a < of_int (- 1022)" using assms(3) apos by (simp add: log_less_iff)
  then have "\<lfloor>log 2 a\<rfloor> < - 1022" by (simp only: floor_less_iff)
  then have "expo a = - 1022" by (simp add: expo_def)
  then have u: "ulp a = 2 powr of_int (- 1074)" by (simp add: ulp_def)
  from nearest_fixed(1) [OF apos assms(2)]
  have "a = of_int (rne (a / ulp a)) * 2 powr of_int (- 1074)"
    by (simp add: nearest_def u)
  moreover have "0 \<le> rne (a / ulp a)" using apos ulp_pos [of a] by (intro rne_ge) simp
  ultimately show ?thesis by blast
qed

lemma rnd_add_subnormal:
  assumes "0 \<le> a" and "rnd a = Fin a" and "0 \<le> b" and "rnd b = Fin b"
    and "a + b < 2 powr of_int (- 1022)"
  shows "rnd (a + b) = Fin (a + b)"
proof -
  from assms have "a < 2 powr of_int (- 1022)" "b < 2 powr of_int (- 1022)" by linarith+
  from subnormal_grid [OF assms(1,2) this(1)] subnormal_grid [OF assms(3,4) this(2)]
  obtain n m where n: "0 \<le> n" "a = of_int n * 2 powr of_int (- 1074)"
    and m: "0 \<le> m" "b = of_int m * 2 powr of_int (- 1074)" by blast
  have s: "a + b = of_int (n + m) * 2 powr of_int (- 1074)"
    by (simp add: n(2) m(2) algebra_simps)
  have "(of_int (n + m) :: real) * 2 powr of_int (- 1074) < 2 ^ 53 * 2 powr of_int (- 1074)"
  proof -
    have "(- 1022::int) - int 52 = - 1074" by simp
    then have "(2::real) powr of_int (- 1022) = 2 ^ 52 * 2 powr of_int (- 1074)"
      using two_powr_shift [of 52 "- 1022"] by (simp only:)
    also have "\<dots> \<le> 2 ^ 53 * 2 powr of_int (- 1074)"
      by (intro mult_right_mono power_increasing) simp_all
    finally show ?thesis using assms(5) s by linarith
  qed
  then have "(of_int (n + m) :: real) < 2 ^ 53" by simp
  then have "(of_int (n + m) :: real) < of_int (2 ^ 53)" by simp
  then have "n + m < 2 ^ 53" by (simp only: of_int_less_iff)
  then have "\<bar>n + m\<bar> < 2 ^ 53" using n(1) m(1) by simp
  from rnd_exact [OF this, of "- 1074"] show ?thesis by (simp add: s)
qed

lemma rnd_add_rel_err:
  assumes "0 \<le> a" and "rnd a = Fin a" and "0 \<le> b" and "rnd b = Fin b"
    and "rnd (a + b) = Fin c"
  shows "\<bar>c - (a + b)\<bar> \<le> (a + b) / 2 ^ 53"
proof (cases "a + b < 2 powr of_int (- 1022)")
  case True
  from rnd_add_subnormal [OF assms(1-4) True] assms(5) have "c = a + b" by simp
  then show ?thesis using assms(1,3) by simp
next
  case False
  then have "2 powr of_int (- 1022) \<le> a + b" by simp
  from rnd_rel_err [OF this assms(5)] show ?thesis .
qed



section \<open>Basic facts\<close>

lemma bindE_Inr_iff:
  "bindE m f = Inr v \<longleftrightarrow> (\<exists>a. m = Inr a \<and> f a = Inr v)"
  by (cases m) auto

lemma vec_at_valid [simp]: "0 \<le> i \<Longrightarrow> i < int (length xs) \<Longrightarrow> vec_at xs i = Inr (xs ! nat i)"
  by (simp add: vec_at_def)

lemma adjacent_find_iff:
  "adjacent_find xs \<longleftrightarrow> (\<exists>i. Suc i < length xs \<and> deq (xs ! i) (xs ! Suc i))"
proof (induction xs rule: adjacent_find.induct)
  case (1 x y xs)
  show ?case
  proof
    assume "adjacent_find (x # y # xs)"
    then consider "deq x y" | "adjacent_find (y # xs)" by auto
    then show "\<exists>i. Suc i < length (x # y # xs) \<and> deq ((x # y # xs) ! i) ((x # y # xs) ! Suc i)"
    proof cases
      case 1
      then show ?thesis by (intro exI [of _ 0]) simp
    next
      case 2
      with "1.IH" obtain i where "Suc i < length (y # xs)" "deq ((y # xs) ! i) ((y # xs) ! Suc i)"
        by blast
      then show ?thesis by (intro exI [of _ "Suc i"]) simp
    qed
  next
    assume "\<exists>i. Suc i < length (x # y # xs) \<and> deq ((x # y # xs) ! i) ((x # y # xs) ! Suc i)"
    then obtain i where i: "Suc i < length (x # y # xs)" "deq ((x # y # xs) ! i) ((x # y # xs) ! Suc i)"
      by blast
    show "adjacent_find (x # y # xs)"
    proof (cases i)
      case 0
      with i show ?thesis by simp
    next
      case (Suc j)
      with i have "Suc j < length (y # xs) \<and> deq ((y # xs) ! j) ((y # xs) ! Suc j)" by simp
      with "1.IH" show ?thesis by auto
    qed
  qed
qed simp_all

lemma gpcm_sums_hd: "gpcm_sums disc theta s cats = s # tl (gpcm_sums disc theta s cats)"
  by (cases cats) simp_all

lemma gpcm_loop_eq:
  "gpcm_loop disc theta cats s den probs =
     (foldl (+) den (map dexp (tl (gpcm_sums disc theta s cats))),
      probs @ map dexp (tl (gpcm_sums disc theta s cats)))"
proof (induction cats arbitrary: s den probs)
  case Nil
  then show ?case by simp
next
  case (Cons b bs)
  let ?s = "s + disc * (theta - b)"
  let ?rest = "map dexp (tl (gpcm_sums disc theta ?s bs))"
  have unfold: "map dexp (gpcm_sums disc theta ?s bs) = dexp ?s # ?rest"
    by (subst gpcm_sums_hd) simp
  have "gpcm_loop disc theta (b # bs) s den probs
          = (foldl (+) (den + dexp ?s) ?rest, (probs @ [dexp ?s]) @ ?rest)"
    by (simp add: Let_def Cons.IH)
  also have "\<dots> = (foldl (+) den (map dexp (tl (gpcm_sums disc theta s (b # bs)))),
                    probs @ map dexp (tl (gpcm_sums disc theta s (b # bs))))"
    by (simp add: unfold)
  finally show ?case .
qed

text \<open>NaN propagates through the arithmetic and fails every comparison.\<close>

lemma NaN_arith [simp]:
  "x + NaN = NaN" "NaN + x = NaN" "x * NaN = NaN" "NaN * x = NaN"
  "x / NaN = NaN" "NaN / x = NaN" "x - NaN = NaN" "NaN - x = NaN"
  by (cases x; simp add: minus_double_def)+

lemma NaN_compare [simp]:
  "\<not> x < NaN" "\<not> NaN < x" "\<not> x \<le> NaN" "\<not> NaN \<le> x"
  by (cases x; simp)+

text \<open>The clamping constant is a small positive double, and so is \<open>1 - eps\<close> below 1.\<close>

lemma two_powr_neg_numeral: "(2::real) powr (- numeral n) = 1 / 2 ^ numeral n"
  by (simp only: powr_minus powr_numeral zero_le_numeral inverse_eq_divide)

lemma rnd_inv_pow2: "n \<le> 1074 \<Longrightarrow> rnd (1 / 2 ^ n) = Fin (1 / 2 ^ n)"
  using rnd_int_div_pow2 [of 1 n] by simp

lemma eps_value: "\<exists>e. eps = Fin e \<and> 1 / 2 ^ 26 \<le> e \<and> e \<le> 1 / 2 ^ 13"
proof -
  have "dpow_pos (Fin 2) (Fin (- 52)) = rnd (2 powr (- 52))" by simp
  also have "\<dots> = rnd (1 / 2 ^ 52)" by (simp only: two_powr_neg_numeral)
  also have "\<dots> = Fin (1 / 2 ^ 52)" by (rule rnd_inv_pow2) simp
  finally have inner: "dpow_pos (Fin 2) (Fin (- 52)) = Fin (1 / 2 ^ 52)" .
  have "\<exists>t. rnd (1 / 3) = Fin t \<and> 1 / 4 \<le> t \<and> t \<le> 1 / 2"
    by (rule rnd_between) simp_all
  then obtain t where t: "Fin 1 / Fin 3 = Fin t" "1 / 4 \<le> t" "t \<le> 1 / 2" by auto
  have "(1 / 2 ^ 52 :: real) = 2 powr (- 52)" by (simp only: two_powr_neg_numeral)
  then have pw: "(1 / 2 ^ 52 :: real) powr t = 2 powr (- 52 * t)"
    by (simp only: powr_powr)
  have "(2::real) powr (- 26) \<le> 2 powr (- 52 * t)" using t by (intro powr_mono) simp_all
  then have lo: "(1::real) / 2 ^ 26 \<le> 2 powr (- 52 * t)"
    by (simp only: two_powr_neg_numeral)
  have "(2::real) powr (- 52 * t) \<le> 2 powr (- 13)" using t by (intro powr_mono) simp_all
  then have hi: "2 powr (- 52 * t) \<le> (1::real) / 2 ^ 13"
    by (simp only: two_powr_neg_numeral)
  have "\<exists>y. rnd (2 powr (- 52 * t)) = Fin y \<and> 1 / 2 ^ 26 \<le> y \<and> y \<le> 1 / 2 ^ 13"
    using lo hi by (rule rnd_between) (simp_all only: rnd_inv_pow2)
  moreover have "eps = rnd ((1 / 2 ^ 52) powr t)"
    unfolding eps_def inner t(1) by simp
  ultimately show ?thesis by (simp only: pw)
qed

lemma one_minus_eps_value:
  "\<exists>h. 1 - eps = Fin h \<and> 8191 / 8192 \<le> h \<and> h \<le> 1"
proof -
  from eps_value obtain e where e: "eps = Fin e" "1 / 2 ^ 26 \<le> e" "e \<le> 1 / 2 ^ 13" by blast
  have "0 \<le> e" using e(2) by (rule order_trans [rotated]) simp
  have r: "rnd (8191 / 8192) = Fin (8191 / 8192)" using rnd_int_div_pow2 [of 8191 13] by simp
  have "\<exists>y. rnd (1 - e) = Fin y \<and> 8191 / 8192 \<le> y \<and> y \<le> 1"
    using e(3) \<open>0 \<le> e\<close> by (intro rnd_between r) simp_all
  then show ?thesis by (simp add: e(1) one_double_def minus_double_def)
qed

lemma exp_ge_two_power: "2 ^ n \<le> exp (real n)"
proof -
  have "(2::real) \<le> exp 1"
    using exp_ge_add_one_self [of 1] by simp
  then have "(2::real) ^ n \<le> exp 1 ^ n"
    by (intro power_mono) simp_all
  also have "\<dots> = exp (real n)"
    by (simp add: exp_of_nat_mult [symmetric])
  finally show ?thesis .
qed

lemma dexp_zero [simp]: "dexp (Fin 0) = Fin 1"
  by simp

declare dexp.simps(1) [simp del]

lemma dexp_overflow: "1024 \<le> x \<Longrightarrow> dexp (Fin x) = PInf"
proof -
  assume "1024 \<le> x"
  then have "exp (real 1024) \<le> exp x" by simp
  with exp_ge_two_power [of 1024] have "2 ^ 1024 \<le> exp x" by linarith
  then show ?thesis by (simp only: dexp.simps(1) rnd_overflow)
qed

lemma dexp_underflow: "x \<le> - 1076 \<Longrightarrow> dexp (Fin x) = Fin 0"
proof -
  assume x: "x \<le> - 1076"
  then have "exp x \<le> exp (- real 1076)" by simp
  also have "\<dots> = 1 / exp (real 1076)" by (simp only: exp_minus inverse_eq_divide)
  also have "\<dots> \<le> 1 / 2 ^ 1076"
    using exp_ge_two_power [of 1076] by (intro divide_left_mono) simp_all
  also have "\<dots> < (1::real) / 2 ^ 1075"
    by (intro divide_strict_left_mono power_strict_increasing) simp_all
  finally have "exp x < 1 / 2 ^ 1075" .
  then show ?thesis by (simp only: dexp.simps(1) rnd_underflow exp_gt_zero)
qed


lemma eps_pos: "Fin 0 < eps"
proof -
  from eps_value obtain e where e: "eps = Fin e" "1 / 2 ^ 26 \<le> e" by blast
  have "(0::real) < 1 / 2 ^ 26" by simp
  with e(2) have "0 < e" by linarith
  then show ?thesis by (simp add: e(1))
qed

lemma eps_less_hi: "eps < 1 - eps"
proof -
  from eps_value obtain e where e: "eps = Fin e" "e \<le> 1 / 2 ^ 13" by blast
  from one_minus_eps_value obtain h where h: "1 - eps = Fin h" "8191 / 8192 \<le> h" by blast
  from e(2) h(2) have "e < h" by simp
  then show ?thesis by (simp only: h(1)) (simp only: e(1) less_double.simps)
qed

lemma eps_le_hi: "eps \<le> 1 - eps"
proof -
  from eps_value obtain e where e: "eps = Fin e" "e \<le> 1 / 2 ^ 13" by blast
  from one_minus_eps_value obtain h where h: "1 - eps = Fin h" "8191 / 8192 \<le> h" by blast
  from e(2) h(2) have "e \<le> h" by simp
  then show ?thesis by (simp only: h(1)) (simp only: e(1) less_eq_double.simps)
qed

text \<open>A value well inside the clamping interval passes both comparisons.\<close>

lemma clamp_inside:
  assumes "1 / 8192 \<le> r" and "r \<le> 8191 / 8192"
  shows "\<not> 1 - eps < Fin r" and "\<not> Fin r < eps" and "eps \<le> Fin r" and "Fin r \<le> 1 - eps"
proof -
  from eps_value obtain e where e: "eps = Fin e" "e \<le> 1 / 2 ^ 13" by blast
  from one_minus_eps_value obtain h where h: "1 - eps = Fin h" "8191 / 8192 \<le> h" by blast
  from e(2) assms(1) have er: "e \<le> r" by simp
  from h(2) assms(2) have rh: "r \<le> h" by simp
  show "\<not> 1 - eps < Fin r" using rh by (simp only: h(1) less_double.simps not_less)
  show "\<not> Fin r < eps" using er by (simp only: e(1) less_double.simps not_less)
  show "eps \<le> Fin r" using er by (simp only: e(1) less_eq_double.simps)
  show "Fin r \<le> 1 - eps" using rh by (simp only: h(1) less_eq_double.simps)
qed

text \<open>The two model functions, with the steps of their arithmetic as premises.\<close>

lemma prob_ltm_eval:
  assumes "0 \<le> q" and "q < int (length (difficulty qs))"
    and "q < int (length (discrimination qs))" and "q < int (length (guessing qs))"
    and "difficulty qs ! nat q \<noteq> []"
    and "dexp (difficulty qs ! nat q ! 0 + discrimination qs ! nat q * theta) = Fin e"
    and "guessing qs ! nat q + (1 - guessing qs ! nat q) * (Fin e / (1 + Fin e)) = r"
  shows "prob_ltm qs theta q =
           Inr (if 1 - eps < r then 1 - eps else if r < eps then eps else r)"
proof -
  from assms(5) have "0 < int (length (difficulty qs ! nat q))" by simp
  then have "vec_at (difficulty qs ! nat q) 0 = Inr (difficulty qs ! nat q ! 0)"
    by (simp add: vec_at_def)
  then show ?thesis
    using assms(1-4) by (simp add: prob_ltm_def Let_def assms(6,7))
qed

lemma prob_ltm_at_zero:
  assumes "0 \<le> q" and "q < int (length (difficulty qs))"
    and "q < int (length (discrimination qs))" and "q < int (length (guessing qs))"
    and "difficulty qs ! nat q = [Fin 0]" and "guessing qs ! nat q = Fin 0"
    and "discrimination qs ! nat q = Fin d"
  shows "prob_ltm qs (Fin 0) q = Inr (Fin (1 / 2))"
proof -
  have ne: "difficulty qs ! nat q \<noteq> []" by (simp add: assms(5))
  have e: "dexp (difficulty qs ! nat q ! 0 + discrimination qs ! nat q * Fin 0) = Fin 1"
    by (simp add: assms(5,7))
  have r: "guessing qs ! nat q + (1 - guessing qs ! nat q) * (Fin 1 / (1 + Fin 1)) = Fin (1 / 2)"
    by (simp add: assms(6) one_double_def minus_double_def)
  show ?thesis
    unfolding prob_ltm_eval [OF assms(1-4) ne e r]
    using clamp_inside [of "1 / 2"] by simp
qed

lemma calculate_mid: "calculate (Fin 1) (Fin 0) (Fin 0) = Fin (1 / 2)"
proof -
  have e: "dexp (Fin 0 - Fin 1 * Fin 0) = Fin 1"
    by (simp add: minus_double_def)
  have r: "Fin 1 / (1 + Fin 1) = Fin (1 / 2)"
    by (simp add: one_double_def)
  show ?thesis
    unfolding calculate_def Let_def e r
    using clamp_inside [of "1 / 2"] by simp
qed


section \<open>Unrecognised model tags\<close>

text \<open>
  C10.  When the model tag is none of ltm, tpm, grm and gpcm, \<open>probability\<close> at a valid
  item id returns the empty sequence and \<open>likelihood\<close> returns 0.0; neither raises an
  error.
\<close>

theorem unknown_model_is_silent:
  assumes "model qs \<notin> {''ltm'', ''tpm'', ''grm'', ''gpcm''}"
    and "0 \<le> question" and "question < int (length (answers qs))"
  shows "probability qs theta question = Inr [] \<and> likelihood qs theta = Inr 0"
  using assms by (simp add: probability_def likelihood_def)

theorem unknown_model_is_silent_witness:
  "model qs_unknown \<notin> {''ltm'', ''tpm'', ''grm'', ''gpcm''} \<and> (0::int) \<le> 0
   \<and> 0 < int (length (answers qs_unknown))
   \<and> probability qs_unknown (Fin 0) 0 = Inr [] \<and> likelihood qs_unknown (Fin 0) = Inr 0"
  using unknown_model_is_silent [of qs_unknown 0 "Fin 0"]
  by (simp add: qs_unknown_def)


section \<open>Derivatives with no answered item\<close>

lemma d1LL_empty:
  "applicable_rows qs = [] \<Longrightarrow>
     d1LL qs theta use_prior pr = Inr ((theta - param0 pr) / dpow2 (param1 pr))"
  by (simp add: d1LL_def)

lemma d2LL_empty:
  "applicable_rows qs = [] \<Longrightarrow>
     d2LL qs theta use_prior pr = Inr (- (1 / dpow2 (param1 pr)))"
  by (simp add: d2LL_def)

text \<open>
  C4.  With \<open>applicable_rows\<close> empty, \<open>d2LL\<close> returns \<open>- 1 / param1\<^sup>2\<close> as claimed, but
  \<open>d1LL\<close> returns \<open>(theta - param0) / param1\<^sup>2\<close>, the quantity that the regularised
  variant subtracts, and not its negative: at \<open>theta = 1\<close> under the standard normal prior
  it returns \<open>1\<close> where the prior term is \<open>- 1\<close>, for both values of \<open>use_prior\<close>.
\<close>

theorem d1LL_empty_rows_sign:
  "d1LL qs_unknown (Fin 1) True pr_std = Inr (Fin 1)
   \<and> d1LL qs_unknown (Fin 1) False pr_std = Inr (Fin 1)
   \<and> - ((Fin 1 - param0 pr_std) / dpow2 (param1 pr_std)) = Fin (- 1)
   \<and> d2LL qs_unknown (Fin 1) True pr_std = Inr (Fin (- 1))
   \<and> d2LL qs_unknown (Fin 1) False pr_std = Inr (Fin (- 1))"
  by (simp add: d1LL_def d2LL_def qs_unknown_def pr_std_def dpow2_def minus_double_def
      one_double_def)


section \<open>When the polytomous models raise\<close>

lemma prob_grm_value:
  assumes "0 \<le> question" and "question < int (length (discrimination qs))"
    and "question < int (length (difficulty qs))"
  shows "prob_grm qs theta question =
           (if \<exists>i. Suc i < length (grm_padded qs theta question)
                  \<and> deq (grm_padded qs theta question ! i) (grm_padded qs theta question ! Suc i)
            then Inl theta_too_extreme else Inr (grm_padded qs theta question))"
  using assms
  by (simp only: prob_grm_def vec_at_valid bindE.simps Let_def adjacent_find_iff grm_padded_def)

lemma prob_gpcm_value:
  assumes "0 \<le> question" and "question < int (length (discrimination qs))"
    and "question < int (length (difficulty qs))"
  shows "prob_gpcm qs theta question =
           (if deq (dsum (gpcm_masses qs theta question)) 0
               \<or> disinf (dsum (gpcm_masses qs theta question))
            then Inl theta_too_extreme
            else Inr (map (\<lambda>m. m / dsum (gpcm_masses qs theta question))
                        (gpcm_masses qs theta question)))"
proof -
  let ?disc = "discrimination qs ! nat question"
  let ?cats = "difficulty qs ! nat question"
  have m: "gpcm_masses qs theta question
             = dexp (?disc * theta) # map dexp (tl (gpcm_sums ?disc theta (?disc * theta) ?cats))"
    unfolding gpcm_masses_def Let_def
    by (subst gpcm_sums_hd) simp
  show ?thesis
    using assms
    by (simp add: prob_gpcm_def Let_def gpcm_loop_eq m)
qed

text \<open>
  C3.  At a valid item id, \<open>prob_grm\<close> raises the domain error exactly when two
  neighbours of the padded sequence \<open>[0, F\<^sub>1, \<dots>, F\<^sub>k, 1]\<close> compare equal, and
  \<open>prob_gpcm\<close> exactly when the total of the exponentials is zero or infinite; otherwise
  each returns its sequence: the padded sequence itself for grm, the exponentials divided
  by their total for gpcm.
\<close>

theorem prob_errors_exactly_when:
  assumes "0 \<le> question" and "question < int (length (discrimination qs))"
    and "question < int (length (difficulty qs))"
  shows "prob_grm qs theta question =
           (if \<exists>i. Suc i < length (grm_padded qs theta question)
                  \<and> deq (grm_padded qs theta question ! i) (grm_padded qs theta question ! Suc i)
            then Inl theta_too_extreme else Inr (grm_padded qs theta question))
    \<and> prob_gpcm qs theta question =
           (if deq (dsum (gpcm_masses qs theta question)) 0
               \<or> disinf (dsum (gpcm_masses qs theta question))
            then Inl theta_too_extreme
            else Inr (map (\<lambda>m. m / dsum (gpcm_masses qs theta question))
                        (gpcm_masses qs theta question)))"
  using assms by (simp only: prob_grm_value prob_gpcm_value simp_thms)

lemma grm_padded_qs_grm: "grm_padded qs_grm (Fin 0) 0 = [Fin 0, Fin (1 / 2), Fin 1]"
  by (simp add: grm_padded_def qs_grm_def calculate_mid zero_double_def one_double_def)

lemma no_adjacent_qs_grm:
  "\<not> (\<exists>i. Suc i < length (grm_padded qs_grm (Fin 0) 0)
        \<and> deq (grm_padded qs_grm (Fin 0) 0 ! i) (grm_padded qs_grm (Fin 0) 0 ! Suc i))"
proof (rule notI, elim exE conjE)
  fix i
  assume len: "Suc i < length (grm_padded qs_grm (Fin 0) 0)"
    and eq: "deq (grm_padded qs_grm (Fin 0) 0 ! i) (grm_padded qs_grm (Fin 0) 0 ! Suc i)"
  from len have "i = 0 \<or> i = 1"
    by (auto simp add: grm_padded_qs_grm)
  with eq show False
    by (auto simp add: grm_padded_qs_grm)
qed

lemma gpcm_masses_qs_grm: "gpcm_masses qs_grm (Fin 0) 0 = [Fin 1, Fin 1]"
  by (simp add: gpcm_masses_def qs_grm_def minus_double_def Let_def)

lemma gpcm_masses_overflow: "gpcm_masses qs_grm (Fin 2000) 0 = [PInf, PInf]"
  by (simp add: gpcm_masses_def qs_grm_def minus_double_def dexp_overflow Let_def)

theorem prob_errors_exactly_when_witness:
  "(0::int) \<le> 0 \<and> 0 < int (length (discrimination qs_grm))
   \<and> 0 < int (length (difficulty qs_grm))
   \<and> prob_grm qs_grm (Fin 0) 0 = Inr [Fin 0, Fin (1 / 2), Fin 1]
   \<and> prob_gpcm qs_grm (Fin 0) 0 = Inr [Fin (1 / 2), Fin (1 / 2)]
   \<and> prob_gpcm qs_grm (Fin 2000) 0 = Inl theta_too_extreme"
proof -
  have v: "(0::int) \<le> 0" "0 < int (length (discrimination qs_grm))"
    "0 < int (length (difficulty qs_grm))"
    by (simp_all add: qs_grm_def)
  note mid = prob_errors_exactly_when [OF v, of "Fin 0"]
  note far = prob_errors_exactly_when [OF v, of "Fin 2000"]
  have "prob_grm qs_grm (Fin 0) 0 = Inr (grm_padded qs_grm (Fin 0) 0)"
    using conjunct1 [OF mid] no_adjacent_qs_grm by (simp only: if_False)
  then have g: "prob_grm qs_grm (Fin 0) 0 = Inr [Fin 0, Fin (1 / 2), Fin 1]"
    by (simp only: grm_padded_qs_grm)
  have p: "prob_gpcm qs_grm (Fin 0) 0 = Inr [Fin (1 / 2), Fin (1 / 2)]"
    using conjunct2 [OF mid] by (simp add: gpcm_masses_qs_grm zero_double_def)
  have e: "prob_gpcm qs_grm (Fin 2000) 0 = Inl theta_too_extreme"
    using conjunct2 [OF far] by (simp add: gpcm_masses_overflow zero_double_def)
  from v g p e show ?thesis by simp
qed



lemma prob_ltm_qs_ltm: "prob_ltm qs_ltm (Fin 0) 0 = Inr (Fin (1 / 2))"
  by (rule prob_ltm_at_zero [where d = 1]) (simp_all add: qs_ltm_def)


section \<open>The selector\<close>

lemma double_less_trans: "(a::double) < b \<Longrightarrow> b < c \<Longrightarrow> a < c"
  by (cases a; cases b; cases c) simp_all

lemma double_less_le_trans: "(a::double) < b \<Longrightarrow> b \<le> c \<Longrightarrow> a < c"
  by (cases a; cases b; cases c) simp_all

lemma double_less_irrefl: "\<not> (a::double) < a"
  by (cases a) simp_all

lemma double_less_not_le: "(a::double) < b \<Longrightarrow> \<not> b \<le> a"
  by (cases a; cases b) simp_all

lemma double_less_asym: "(a::double) < b \<Longrightarrow> \<not> b < a"
  by (cases a; cases b) simp_all

text \<open>
  The invariant of the scan.  From a running maximum \<open>m\<close> held by \<open>it\<close>, the scan ends on
  the first of the remaining candidates whose score exceeds \<open>m\<close> and is exceeded by none
  and reached by none before it; when no score exceeds \<open>m\<close>, it keeps \<open>m\<close> and \<open>it\<close>.
\<close>

lemma mfii_scan_result:
  assumes "mfii_scan E qs pr rest names vals m it = Inr (names', vals', m', it')"
  shows "\<exists>new. map (\<lambda>q. fii E qs q pr) rest = map Inr new \<and> vals' = vals @ new
           \<and> (if \<exists>v\<in>set new. m < v
               then \<exists>i<length rest. it' = rest ! i \<and> m' = new ! i \<and> m < new ! i
                      \<and> (\<forall>j<length rest. \<not> new ! i < new ! j)
                      \<and> (\<forall>j<i. \<not> new ! i \<le> new ! j)
               else m' = m \<and> it' = it)"
  using assms
proof (induction rest arbitrary: names vals m it)
  case Nil
  then show ?case by simp
next
  case (Cons q rest)
  from Cons.prems obtain v where v: "fii E qs q pr = Inr v"
    by (cases "fii E qs q pr") (simp_all add: Let_def)
  let ?names = "names @ [question_names qs ! nat q]"
  show ?case
  proof (cases "m < v")
    case True
    with Cons.prems v have "mfii_scan E qs pr rest ?names (vals @ [v]) v q
        = Inr (names', vals', m', it')"
      by (simp add: Let_def)
    from Cons.IH [OF this] obtain new where
      new: "map (\<lambda>q. fii E qs q pr) rest = map Inr new" "vals' = (vals @ [v]) @ new"
      and sel: "if \<exists>w\<in>set new. v < w
               then \<exists>i<length rest. it' = rest ! i \<and> m' = new ! i \<and> v < new ! i
                      \<and> (\<forall>j<length rest. \<not> new ! i < new ! j)
                      \<and> (\<forall>j<i. \<not> new ! i \<le> new ! j)
               else m' = v \<and> it' = q"
      by blast
    have len: "length new = length rest"
      using new(1) by (metis length_map)
    have ex: "\<exists>w\<in>set (v # new). m < w" using True by simp
    have "\<exists>i<length (q # rest). it' = (q # rest) ! i \<and> m' = (v # new) ! i \<and> m < (v # new) ! i
            \<and> (\<forall>j<length (q # rest). \<not> (v # new) ! i < (v # new) ! j)
            \<and> (\<forall>j<i. \<not> (v # new) ! i \<le> (v # new) ! j)"
    proof (cases "\<exists>w\<in>set new. v < w")
      case later: True
      with sel obtain i where i: "i < length rest" "it' = rest ! i" "m' = new ! i" "v < new ! i"
        "\<forall>j<length rest. \<not> new ! i < new ! j" "\<forall>j<i. \<not> new ! i \<le> new ! j"
        by auto
      have "m < new ! i" using True i(4) by (rule double_less_trans)
      moreover have "\<not> (v # new) ! Suc i < (v # new) ! j" if "j < length (q # rest)" for j
        using that i(4,5) double_less_asym by (cases j) auto
      moreover have "\<not> (v # new) ! Suc i \<le> (v # new) ! j" if "j < Suc i" for j
        using that i(4,6) double_less_not_le by (cases j) auto
      ultimately show ?thesis
        using i(1,2,3) by (intro exI [of _ "Suc i"]) simp
    next
      case none: False
      with sel have "m' = v" "it' = q" by simp_all
      moreover have "\<not> (v # new) ! 0 < (v # new) ! j" if "j < length (q # rest)" for j
        using that none len double_less_irrefl by (cases j) auto
      ultimately show ?thesis
        using True by (intro exI [of _ 0]) simp
    qed
    with ex new v show ?thesis
      by (intro exI [of _ "v # new"]) simp
  next
    case False
    with Cons.prems v have "mfii_scan E qs pr rest ?names (vals @ [v]) m it
        = Inr (names', vals', m', it')"
      by (simp add: Let_def)
    from Cons.IH [OF this] obtain new where
      new: "map (\<lambda>q. fii E qs q pr) rest = map Inr new" "vals' = (vals @ [v]) @ new"
      and sel: "if \<exists>w\<in>set new. m < w
               then \<exists>i<length rest. it' = rest ! i \<and> m' = new ! i \<and> m < new ! i
                      \<and> (\<forall>j<length rest. \<not> new ! i < new ! j)
                      \<and> (\<forall>j<i. \<not> new ! i \<le> new ! j)
               else m' = m \<and> it' = it"
      by blast
    have len: "length new = length rest"
      using new(1) by (metis length_map)
    have "if \<exists>w\<in>set (v # new). m < w
          then \<exists>i<length (q # rest). it' = (q # rest) ! i \<and> m' = (v # new) ! i \<and> m < (v # new) ! i
            \<and> (\<forall>j<length (q # rest). \<not> (v # new) ! i < (v # new) ! j)
            \<and> (\<forall>j<i. \<not> (v # new) ! i \<le> (v # new) ! j)
          else m' = m \<and> it' = it"
    proof (cases "\<exists>w\<in>set new. m < w")
      case later: True
      with sel obtain i where i: "i < length rest" "it' = rest ! i" "m' = new ! i" "m < new ! i"
        "\<forall>j<length rest. \<not> new ! i < new ! j" "\<forall>j<i. \<not> new ! i \<le> new ! j"
        by auto
      have nlt: "\<not> new ! i < v"
        using False i(4) double_less_trans by blast
      have nle: "\<not> new ! i \<le> v"
        using False i(4) double_less_le_trans by blast
      have "\<not> (v # new) ! Suc i < (v # new) ! j" if "j < length (q # rest)" for j
        using that i(5) nlt by (cases j) auto
      moreover have "\<not> (v # new) ! Suc i \<le> (v # new) ! j" if "j < Suc i" for j
        using that i(6) nle by (cases j) auto
      ultimately have "\<exists>k<length (q # rest). it' = (q # rest) ! k \<and> m' = (v # new) ! k
            \<and> m < (v # new) ! k
            \<and> (\<forall>j<length (q # rest). \<not> (v # new) ! k < (v # new) ! j)
            \<and> (\<forall>j<k. \<not> (v # new) ! k \<le> (v # new) ! j)"
        using i(1,2,3,4) by (intro exI [of _ "Suc i"]) simp
      moreover have "\<exists>w\<in>set (v # new). m < w" using later by simp
      ultimately show ?thesis by simp
    next
      case none: False
      with sel have "m' = m" "it' = it" by simp_all
      moreover have "\<not> (\<exists>w\<in>set (v # new). m < w)" using none False by simp
      ultimately show ?thesis by simp
    qed
    with new v show ?thesis
      by (intro exI [of _ "v # new"]) simp
  qed
qed


lemma fisherInf_qs_ltm: "fisherInf qs_ltm (Fin 0) 0 = Inr (Fin (1 / 4))"
proof -
  have "prob_ltm qs_ltm (Fin 0) 0 = Inr (Fin (1 / 2))"
    by (rule prob_ltm_at_zero [where d = 1]) (simp_all add: qs_ltm_def)
  then show ?thesis
    by (simp add: fisherInf_def obsInf_def Let_def dpow2_def one_double_def minus_double_def)
       (simp add: qs_ltm_def)
qed

lemma fii_qs_ltm: "fii E_midpoint qs_ltm 0 pr_std = Inr (Fin 0)"
proof -
  have rows: "applicable_rows qs_ltm = []" and z0: "vec_at (z qs_ltm) 0 = Inr (Fin 2)"
    by (simp_all add: qs_ltm_def)
  have info: "fisherTestInfo E_midpoint qs_ltm pr_std = Inr (Fin 0)"
    by (simp add: fisherTestInfo_def E_midpoint_def rows zero_double_def)
  show ?thesis
    by (simp add: fii_def info z0 Let_def integrate_selectItem_def)
       (simp add: E_midpoint_def fisherInf_qs_ltm minus_double_def)
qed

text \<open>
  C5, as claimed, fails when no candidate scores above zero: the running maximum starts
  at \<open>0.0\<close> with item \<open>-1\<close> and only a strictly larger score replaces it.  With no answered
  item the test information is 0, the integration window is empty and every score is 0;
  the selection then holds item \<open>-1\<close>, which is no candidate.
\<close>

theorem selectItem_no_candidate_counterexample:
  "nonapplicable_rows qs_ltm = [0]
   \<and> selectItem E_midpoint qs_ltm pr_std =
       Inr \<lparr>sel_questions = [0], sel_values = [Fin 0], sel_name = ''MFII'',
            sel_question_names = [''q1''], sel_item = - 1\<rparr>"
proof -
  have rows: "nonapplicable_rows qs_ltm = [0]" by (simp add: qs_ltm_def)
  have "mfii_scan E_midpoint qs_ltm pr_std [0] [] [] 0 (- 1)
          = Inr ([''q1''], [Fin 0], 0, - 1)"
    by (simp add: fii_qs_ltm Let_def zero_double_def) (simp add: qs_ltm_def)
  then show ?thesis
    by (simp add: selectItem_def rows)
qed

text \<open>
  C5, amended.  When \<open>selectItem\<close> returns, \<open>values\<close> holds the \<open>fii\<close> score of every
  candidate in scan order.  If some score exceeds 0, \<open>item\<close> is the first candidate in scan
  order whose score no other candidate exceeds: its score is positive, no score is
  larger and no earlier score is as large; when \<open>nonapplicable_rows\<close> is ascending this is
  the lowest such item id.  If no score exceeds 0, \<open>item\<close> is \<open>-1\<close>.
\<close>

theorem selectItem_first_maximum:
  assumes "selectItem E qs pr = Inr sel"
  shows "map (\<lambda>q. fii E qs q pr) (nonapplicable_rows qs) = map Inr (sel_values sel)
       \<and> sel_questions sel = nonapplicable_rows qs
       \<and> (if \<exists>v\<in>set (sel_values sel). 0 < v
           then \<exists>i<length (nonapplicable_rows qs).
                  sel_item sel = nonapplicable_rows qs ! i \<and> 0 < sel_values sel ! i
                  \<and> (\<forall>j<length (nonapplicable_rows qs). \<not> sel_values sel ! i < sel_values sel ! j)
                  \<and> (\<forall>j<i. \<not> sel_values sel ! i \<le> sel_values sel ! j)
                  \<and> (sorted_wrt (<) (nonapplicable_rows qs) \<longrightarrow>
                       (\<forall>j<length (nonapplicable_rows qs).
                          nonapplicable_rows qs ! j < sel_item sel \<longrightarrow>
                            \<not> sel_values sel ! i \<le> sel_values sel ! j))
           else sel_item sel = - 1)"
proof -
  from assms obtain names vals m it where
    scan: "mfii_scan E qs pr (nonapplicable_rows qs) [] [] 0 (- 1) = Inr (names, vals, m, it)"
    and sel: "sel = \<lparr>sel_questions = nonapplicable_rows qs, sel_values = vals,
               sel_name = ''MFII'', sel_question_names = names, sel_item = it\<rparr>"
    by (cases "mfii_scan E qs pr (nonapplicable_rows qs) [] [] 0 (- 1)")
       (auto simp add: selectItem_def)
  from mfii_scan_result [OF scan] obtain new where
    new: "map (\<lambda>q. fii E qs q pr) (nonapplicable_rows qs) = map Inr new" "vals = new"
    and pick: "if \<exists>v\<in>set new. 0 < v
       then \<exists>i<length (nonapplicable_rows qs). it = nonapplicable_rows qs ! i \<and> m = new ! i
              \<and> 0 < new ! i
              \<and> (\<forall>j<length (nonapplicable_rows qs). \<not> new ! i < new ! j)
              \<and> (\<forall>j<i. \<not> new ! i \<le> new ! j)
       else m = 0 \<and> it = - 1"
    by auto
  show ?thesis
  proof (cases "\<exists>v\<in>set new. 0 < v")
    case True
    with pick obtain i where i: "i < length (nonapplicable_rows qs)"
      "it = nonapplicable_rows qs ! i" "0 < new ! i"
      "\<forall>j<length (nonapplicable_rows qs). \<not> new ! i < new ! j"
      "\<forall>j<i. \<not> new ! i \<le> new ! j"
      by auto
    have lowest: "\<not> new ! i \<le> new ! j"
      if sorted: "sorted_wrt (<) (nonapplicable_rows qs)"
        and j: "j < length (nonapplicable_rows qs)" "nonapplicable_rows qs ! j < it" for j
    proof -
      have "j < i"
      proof (rule ccontr)
        assume "\<not> j < i"
        then have "i = j \<or> i < j" by auto
        then have "nonapplicable_rows qs ! i \<le> nonapplicable_rows qs ! j"
          using sorted_wrt_nth_less [OF sorted _ j(1), of i] by auto
        with j(2) i(2) show False by simp
      qed
      with i(5) show ?thesis by simp
    qed
    from i lowest have "\<exists>i<length (nonapplicable_rows qs). it = nonapplicable_rows qs ! i \<and> 0 < new ! i
              \<and> (\<forall>j<length (nonapplicable_rows qs). \<not> new ! i < new ! j)
              \<and> (\<forall>j<i. \<not> new ! i \<le> new ! j)
              \<and> (sorted_wrt (<) (nonapplicable_rows qs) \<longrightarrow>
                   (\<forall>j<length (nonapplicable_rows qs).
                      nonapplicable_rows qs ! j < it \<longrightarrow> \<not> new ! i \<le> new ! j))"
      by blast
    with True new show ?thesis
      unfolding sel by simp
  next
    case False
    with pick have "it = - 1" by simp
    with False new show ?thesis
      unfolding sel by simp
  qed
qed

lemma fisherInf_qs_three:
  "fisherInf qs_three (Fin 0) 0 = Inr (Fin 1)"
  "fisherInf qs_three (Fin 0) 1 = Inr (Fin (1 / 4))"
  "fisherInf qs_three (Fin 0) 2 = Inr (Fin (1 / 4))"
proof -
  have p: "prob_ltm qs_three (Fin 0) 0 = Inr (Fin (1 / 2))"
    "prob_ltm qs_three (Fin 0) 1 = Inr (Fin (1 / 2))"
    "prob_ltm qs_three (Fin 0) 2 = Inr (Fin (1 / 2))"
    by (rule prob_ltm_at_zero [where d = 2], simp_all add: qs_three_def)
       (rule prob_ltm_at_zero [where d = 1], simp_all add: qs_three_def)+
  show "fisherInf qs_three (Fin 0) 0 = Inr (Fin 1)"
    by (simp add: fisherInf_def obsInf_def Let_def dpow2_def one_double_def minus_double_def p)
       (simp add: qs_three_def)
  show "fisherInf qs_three (Fin 0) 1 = Inr (Fin (1 / 4))"
    by (simp add: fisherInf_def obsInf_def Let_def dpow2_def one_double_def minus_double_def p)
       (simp add: qs_three_def)
  show "fisherInf qs_three (Fin 0) 2 = Inr (Fin (1 / 4))"
    by (simp add: fisherInf_def obsInf_def Let_def dpow2_def one_double_def minus_double_def p)
       (simp add: qs_three_def)
qed

lemma fii_qs_three:
  "fii E_midpoint qs_three 1 pr_std = Inr (Fin 1)"
  "fii E_midpoint qs_three 2 pr_std = Inr (Fin 1)"
proof -
  have info: "fisherTestInfo E_midpoint qs_three pr_std = Inr (Fin 1)"
    by (simp add: fisherTestInfo_def E_midpoint_def)
       (simp add: qs_three_def fisherInf_qs_three [unfolded qs_three_def] zero_double_def)
  have z0: "vec_at (z qs_three) 0 = Inr (Fin 2)"
    by (simp add: qs_three_def)
  show "fii E_midpoint qs_three 1 pr_std = Inr (Fin 1)"
    by (simp add: fii_def info z0 Let_def integrate_selectItem_def)
       (simp add: E_midpoint_def fisherInf_qs_three minus_double_def)
  show "fii E_midpoint qs_three 2 pr_std = Inr (Fin 1)"
    by (simp add: fii_def info z0 Let_def integrate_selectItem_def)
       (simp add: E_midpoint_def fisherInf_qs_three minus_double_def)
qed

lemma selectItem_qs_three:
  "selectItem E_midpoint qs_three pr_std =
     Inr \<lparr>sel_questions = [1, 2], sel_values = [Fin 1, Fin 1], sel_name = ''MFII'',
          sel_question_names = [''q2'', ''q3''], sel_item = 1\<rparr>"
proof -
  have rows: "nonapplicable_rows qs_three = [1, 2]" by (simp add: qs_three_def)
  have names: "question_names qs_three = [''q1'', ''q2'', ''q3'']" by (simp add: qs_three_def)
  have "mfii_scan E_midpoint qs_three pr_std [1, 2] [] [] 0 (- 1)
          = Inr ([''q2'', ''q3''], [Fin 1, Fin 1], Fin 1, 1)"
    by (simp add: fii_qs_three Let_def zero_double_def names)
  then show ?thesis
    by (simp add: selectItem_def rows)
qed

theorem selectItem_first_maximum_witness:
  "selectItem E_midpoint qs_three pr_std =
     Inr \<lparr>sel_questions = [1, 2], sel_values = [Fin 1, Fin 1], sel_name = ''MFII'',
          sel_question_names = [''q2'', ''q3''], sel_item = 1\<rparr>
   \<and> map (\<lambda>q. fii E_midpoint qs_three q pr_std) (nonapplicable_rows qs_three)
       = map Inr [Fin 1, Fin 1]
   \<and> nonapplicable_rows qs_three = [1, 2]"
  using selectItem_first_maximum [OF selectItem_qs_three] selectItem_qs_three
  by (simp add: qs_three_def)


section \<open>Invalid item ids\<close>

text \<open>
  With one of the four model tags and parallel arrays, every id outside the arrays is
  rejected: by the guard when it is larger than the size of \<open>answers\<close>, by the checked
  access of the model function when it is equal to it.
\<close>

lemma probability_rejects_invalid_id:
  assumes "model qs \<in> {''ltm'', ''tpm'', ''grm'', ''gpcm''}"
    and "length (discrimination qs) = length (answers qs)"
    and "length (difficulty qs) = length (answers qs)"
    and "question < 0 \<or> int (length (answers qs)) \<le> question"
  shows "\<exists>e. probability qs theta question = Inl e"
  using assms
  by (auto simp add: probability_def prob_grm_def prob_gpcm_def prob_ltm_def vec_at_def)

text \<open>
  C8.  The guard of \<open>probability\<close> tests \<open>question > answers.size()\<close>, so the id equal to
  the size passes it.  With a tag outside the four models nothing else reads the arrays:
  for \<open>answers\<close> of size 1 the id 1 returns the empty sequence and no error, where the
  id 2 raises the domain error; with the tag ltm the id 1 is rejected only by
  \<^verbatim>\<open>difficulty.at\<close>, as \<^verbatim>\<open>std::out_of_range\<close>.
\<close>

theorem probability_guard_off_by_one:
  "int (length (answers qs_unknown)) = 1
   \<and> probability qs_unknown (Fin 0) 1 = Inr []
   \<and> probability qs_unknown (Fin 0) 2 = Inl bad_question
   \<and> probability qs_ltm (Fin 0) 1 = Inl OutOfRange"
  by (simp add: probability_def qs_unknown_def qs_ltm_def prob_ltm_def vec_at_def)


section \<open>Transient mutation in the expected posterior variance\<close>

text \<open>The loop over the hypothetical answers writes to \<open>answers[item]\<close> only.\<close>

lemma variances_loop_frame:
  assumes "variances_loop E item pr is qs vs = (r, qs')"
  shows "\<exists>w. qs' = qs\<lparr>answers := (answers qs)[nat item := w]\<rparr>"
  using assms
proof (induction "is" arbitrary: qs vs)
  case Nil
  then have "qs' = qs" by simp
  then have "qs' = qs\<lparr>answers := (answers qs)[nat item := answers qs ! nat item]\<rparr>"
    by simp
  then show ?case by blast
next
  case (Cons i rest)
  show ?case
  proof (cases "set_answer qs item (int i + 1)")
    case (Inl e)
    with Cons.prems have "qs' = qs" by simp
    then have "qs' = qs\<lparr>answers := (answers qs)[nat item := answers qs ! nat item]\<rparr>"
      by simp
    then show ?thesis by blast
  next
    case (Inr qs1)
    then have qs1: "qs1 = qs\<lparr>answers := (answers qs)[nat item := int i + 1]\<rparr>"
      by (auto simp add: set_answer_def split: if_splits)
    show ?thesis
    proof (cases "estimateSE E qs1 pr")
      case (Inl e)
      with Cons.prems Inr have "qs' = qs1" by simp
      with qs1 show ?thesis by blast
    next
      case se: (Inr se)
      with Cons.prems Inr have "variances_loop E item pr rest qs1 (vs @ [dpow2 se]) = (r, qs')"
        by simp
      from Cons.IH [OF this] obtain w where
        "qs' = qs1\<lparr>answers := (answers qs1)[nat item := w]\<rparr>" by blast
      then have "qs' = qs\<lparr>answers := (answers qs)[nat item := w]\<rparr>"
        by (simp add: qs1)
      then show ?thesis by blast
    qed
  qed
qed

lemma restore_state:
  assumes "answers qs ! nat item = NA_INTEGER"
  shows "qs\<lparr>applicable_rows := applicable_rows qs,
            answers := (answers qs)[nat item := NA_INTEGER]\<rparr> = qs"
proof -
  have "(answers qs)[nat item := NA_INTEGER] = answers qs"
    using assms by (metis list_update_id)
  then show ?thesis by simp
qed

lemma binary_restores:
  assumes "0 \<le> item" and "item < int (length (answers qs))"
    and "binary_posterior_variance E item pr qs = (Inr v, qs')"
  shows "\<exists>w. qs' = qs\<lparr>answers := (answers qs)[nat item := w]\<rparr>"
  using assms
  by (auto simp add: binary_posterior_variance_def set_answer_def push_back_row_def
      pop_back_row_def Let_def split: sum.splits if_splits)

lemma polytomous_restores:
  assumes "polytomous_posterior_variance E item pr qs = (Inr v, qs')"
  shows "\<exists>w. qs' = qs\<lparr>answers := (answers qs)[nat item := w]\<rparr>"
proof -
  from assms have "\<exists>js variances qs2.
      variances_loop E item pr js (push_back_row qs item) [] = (Inr variances, qs2)
      \<and> qs' = pop_back_row qs2"
    by (auto simp add: polytomous_posterior_variance_def Let_def
        split: sum.splits prod.splits if_splits)
  then obtain js variances qs2 where
    loop: "variances_loop E item pr js (push_back_row qs item) [] = (Inr variances, qs2)"
    and fin: "qs' = pop_back_row qs2"
    by blast
  from variances_loop_frame [OF loop] obtain w where
    "qs2 = (push_back_row qs item)\<lparr>answers := (answers (push_back_row qs item))[nat item := w]\<rparr>"
    by blast
  with fin have "qs' = qs\<lparr>answers := (answers qs)[nat item := w]\<rparr>"
    by (simp add: push_back_row_def pop_back_row_def)
  then show ?thesis by blast
qed


text \<open>
  C1, amended.  For an item whose answer is the missing sentinel, when \<open>expectedPV\<close>
  returns a value the question set is the one it was called on; the same holds when the
  call ends with the error of the initial point estimate or probability computation, which
  comes before the item is pushed.
\<close>

theorem expectedPV_restores_on_return:
  assumes "0 \<le> item" and "item < int (length (answers qs))"
    and "answers qs ! nat item = NA_INTEGER"
  shows "(expectedPV E item pr qs = (Inr v, qs') \<longrightarrow> qs' = qs)
       \<and> (model qs \<in> {''ltm'', ''tpm'', ''grm'', ''gpcm''}
            \<and> (estimateTheta E qs pr = Inl e
                 \<or> (\<exists>theta. estimateTheta E qs pr = Inr theta
                       \<and> probability qs theta item = Inl e))
          \<longrightarrow> expectedPV E item pr qs = (Inl e, qs))"
proof (intro conjI impI)
  assume ret: "expectedPV E item pr qs = (Inr v, qs')"
  let ?inner = "if model qs = ''ltm'' \<or> model qs = ''tpm''
                  then binary_posterior_variance E item pr qs
                else if model qs = ''grm'' then polytomous_posterior_variance E item pr qs
                else if model qs = ''gpcm'' then polytomous_posterior_variance E item pr qs
                else (Inr 0, qs)"
  from ret obtain result qs1 where inner: "?inner = (Inr result, qs1)"
    and fin: "set_answer qs1 item NA_INTEGER = Inr qs'"
    unfolding expectedPV_def
    by (auto split: sum.splits prod.splits)
  have "\<exists>w. qs1 = qs\<lparr>answers := (answers qs)[nat item := w]\<rparr>"
  proof -
    consider "model qs = ''ltm'' \<or> model qs = ''tpm''"
      | "\<not> (model qs = ''ltm'' \<or> model qs = ''tpm'')" "model qs = ''grm'' \<or> model qs = ''gpcm''"
      | "\<not> (model qs = ''ltm'' \<or> model qs = ''tpm'')" "\<not> (model qs = ''grm'' \<or> model qs = ''gpcm'')"
      by blast
    then show ?thesis
    proof cases
      case 1
      with inner have "binary_posterior_variance E item pr qs = (Inr result, qs1)" by simp
      from binary_restores [OF assms(1,2) this] show ?thesis .
    next
      case 2
      with inner have "polytomous_posterior_variance E item pr qs = (Inr result, qs1)"
        by (auto split: if_splits)
      from polytomous_restores [OF this] show ?thesis .
    next
      case 3
      with inner have "qs1 = qs" by simp
      then have "qs1 = qs\<lparr>answers := (answers qs)[nat item := answers qs ! nat item]\<rparr>"
        by simp
      then show ?thesis by blast
    qed
  qed
  then obtain w where "qs1 = qs\<lparr>answers := (answers qs)[nat item := w]\<rparr>" by blast
  with fin assms(1,2) have "qs' = qs\<lparr>applicable_rows := applicable_rows qs,
       answers := (answers qs)[nat item := NA_INTEGER]\<rparr>"
    by (auto simp add: set_answer_def split: if_splits)
  with restore_state [OF assms(3)] show "qs' = qs" by simp
next
  assume early: "model qs \<in> {''ltm'', ''tpm'', ''grm'', ''gpcm''}
            \<and> (estimateTheta E qs pr = Inl e
                 \<or> (\<exists>theta. estimateTheta E qs pr = Inr theta
                       \<and> probability qs theta item = Inl e))"
  then have first: "bindE (estimateTheta E qs pr) (\<lambda>theta. probability qs theta item) = Inl e"
    by auto
  have ltm: "bindE (estimateTheta E qs pr) (\<lambda>theta. prob_ltm qs theta item) = Inl e"
    if "model qs = ''ltm'' \<or> model qs = ''tpm''"
    using that first assms(1,2)
    by (cases "estimateTheta E qs pr")
       (auto simp add: probability_def bindE_Inr_iff split: if_splits sum.splits
        elim: bindE.elims)
  from early consider "model qs = ''ltm'' \<or> model qs = ''tpm''"
    | "\<not> (model qs = ''ltm'' \<or> model qs = ''tpm'')" "model qs = ''grm'' \<or> model qs = ''gpcm''"
    by auto
  then show "expectedPV E item pr qs = (Inl e, qs)"
  proof cases
    case 1
    with ltm show ?thesis
      by (simp add: expectedPV_def binary_posterior_variance_def)
  next
    case 2
    with first show ?thesis
      by (auto simp add: expectedPV_def polytomous_posterior_variance_def)
  qed
qed

lemma expectedPV_qs_ltm: "expectedPV E_midpoint 0 pr_std qs_ltm = (Inr (Fin 1), qs_ltm)"
proof -
  have th: "estimateTheta E_midpoint qs_ltm pr_std = Inr (Fin 0)"
    and se: "\<And>qs. estimateSE E_midpoint qs pr_std = Inr (Fin 1)"
    by (simp_all add: E_midpoint_def)
  have m: "model qs_ltm = ''ltm''" by (simp add: qs_ltm_def)
  have "binary_posterior_variance E_midpoint 0 pr_std qs_ltm
          = (Inr (Fin 1), qs_ltm\<lparr>answers := [0]\<rparr>)"
    by (simp add: binary_posterior_variance_def th se prob_ltm_qs_ltm Let_def dpow2_def
        one_double_def minus_double_def)
       (simp add: set_answer_def push_back_row_def pop_back_row_def qs_ltm_def se dpow2_def
        one_double_def minus_double_def)
  then show ?thesis
    by (simp add: expectedPV_def m) (simp add: set_answer_def qs_ltm_def)
qed

theorem expectedPV_restores_on_return_witness:
  "(0::int) \<le> 0 \<and> 0 < int (length (answers qs_ltm)) \<and> answers qs_ltm ! nat 0 = NA_INTEGER
   \<and> expectedPV E_midpoint 0 pr_std qs_ltm = (Inr (Fin 1), qs_ltm)
   \<and> model qs_ltm \<in> {''ltm'', ''tpm'', ''grm'', ''gpcm''}
   \<and> estimateTheta E_no_estimate qs_ltm pr_std = Inl theta_too_extreme
   \<and> expectedPV E_no_estimate 0 pr_std qs_ltm = (Inl theta_too_extreme, qs_ltm)"
proof -
  have v: "(0::int) \<le> 0" "0 < int (length (answers qs_ltm))"
    "answers qs_ltm ! nat 0 = NA_INTEGER"
    by (simp_all add: qs_ltm_def)
  have m: "model qs_ltm \<in> {''ltm'', ''tpm'', ''grm'', ''gpcm''}"
    by (simp add: qs_ltm_def)
  have no: "estimateTheta E_no_estimate qs_ltm pr_std = Inl theta_too_extreme"
    by (simp add: E_no_estimate_def)
  from expectedPV_restores_on_return [OF v, of E_no_estimate pr_std "Fin 1" qs_ltm theta_too_extreme]
    m no
  have "expectedPV E_no_estimate 0 pr_std qs_ltm = (Inl theta_too_extreme, qs_ltm)"
    by blast
  with v m no expectedPV_qs_ltm show ?thesis by blast
qed

text \<open>
  C1, as claimed, fails when the standard error throws after the item was pushed: nothing
  catches the error, so \<open>applicable_rows\<close> keeps the item and \<open>answers[item]\<close> the
  hypothetical answer.
\<close>

theorem expectedPV_leaves_state_counterexample:
  "answers qs_ltm ! nat 0 = NA_INTEGER \<and> applicable_rows qs_ltm = []
   \<and> expectedPV E_failing 0 pr_std qs_ltm
       = (Inl theta_too_extreme, qs_ltm\<lparr>applicable_rows := [0], answers := [1]\<rparr>)"
proof -
  have th: "estimateTheta E_failing qs_ltm pr_std = Inr (Fin 0)"
    by (simp add: E_failing_def E_midpoint_def)
  have m: "model qs_ltm = ''ltm''" by (simp add: qs_ltm_def)
  have "binary_posterior_variance E_failing 0 pr_std qs_ltm
          = (Inl theta_too_extreme, qs_ltm\<lparr>applicable_rows := [0], answers := [1]\<rparr>)"
    by (simp add: binary_posterior_variance_def th prob_ltm_qs_ltm Let_def)
       (simp add: set_answer_def push_back_row_def qs_ltm_def E_failing_def)
  then show ?thesis
    by (simp add: expectedPV_def m) (simp add: qs_ltm_def)
qed


section \<open>The binary model: clamping\<close>

lemma is_finite_iff: "is_finite x \<longleftrightarrow> (\<exists>r. x = Fin r \<and> rnd r = Fin r)"
  by (cases x) simp_all

lemma dexp_cases:
  assumes "x \<noteq> NaN"
  shows "dexp x = PInf \<or> (\<exists>e\<ge>0. dexp x = Fin e \<and> rnd e = Fin e)"
proof (cases x)
  case (Fin r)
  have "0 \<le> exp r" by simp
  from rnd_nonneg [OF this] show ?thesis
  proof
    assume "rnd (exp r) = PInf"
    then show ?thesis by (simp add: Fin dexp.simps(1))
  next
    assume "\<exists>y\<ge>0. rnd (exp r) = Fin y"
    then obtain y where y: "0 \<le> y" "rnd (exp r) = Fin y" by blast
    from rnd_idem [OF y(2)] y show ?thesis by (auto simp add: Fin dexp.simps(1))
  qed
qed (use assms in simp_all)

lemma exponent_not_NaN:
  assumes "is_finite a" and "is_finite b" and "is_finite c"
  shows "a + b * c \<noteq> NaN" and "a - b * c \<noteq> NaN"
proof -
  from assms obtain x y z where f: "a = Fin x" "b = Fin y" "c = Fin z"
    by (auto simp add: is_finite_iff)
  show "a + b * c \<noteq> NaN" by (cases "rnd (y * z)") (simp_all add: f)
  show "a - b * c \<noteq> NaN" by (cases "rnd (y * z)") (simp_all add: f minus_double_def)
qed

text \<open>The rounded logistic of a non-negative double is a double between 0 and 1.\<close>

lemma logistic_value:
  assumes "0 \<le> e" and "rnd e = Fin e"
  shows "\<exists>l. Fin e / (1 + Fin e) = Fin l \<and> 0 \<le> l \<and> l \<le> 1"
proof -
  from rnd_add_one_finite [OF assms(2,1)] obtain s where
    s: "rnd (1 + e) = Fin s" "1 \<le> s" "e \<le> s" by blast
  have "0 \<le> e / s" "e / s \<le> 1" using assms(1) s(2,3) by simp_all
  then have "\<exists>l. rnd (e / s) = Fin l \<and> 0 \<le> l \<and> l \<le> 1"
    by (intro rnd_between) simp_all
  then show ?thesis using s(2) by (simp add: one_double_def s(1))
qed

lemma raw_not_NaN:
  assumes "is_finite g"
  shows "g + (1 - g) * Fin l \<noteq> NaN"
proof -
  from assms obtain x where x: "g = Fin x" "rnd x = Fin x" by (auto simp add: is_finite_iff)
  from rnd_one_minus_finite [OF x(2)] obtain t where t: "rnd (1 - x) = Fin t" by blast
  have "1 - g = Fin t" using t by (simp add: x(1) one_double_def minus_double_def)
  then show ?thesis by (cases "rnd (t * l)") (simp_all add: x(1))
qed

lemma clamp_range:
  assumes "r \<noteq> NaN"
  shows "eps \<le> (if 1 - eps < r then 1 - eps else if r < eps then eps else r)
       \<and> (if 1 - eps < r then 1 - eps else if r < eps then eps else r) \<le> 1 - eps"
proof -
  from eps_value obtain e where e: "eps = Fin e" by blast
  from one_minus_eps_value obtain h where h: "1 - eps = Fin h" by blast
  from eps_le_hi have "e \<le> h" by (simp only: h) (simp only: e less_eq_double.simps)
  then show ?thesis
    using assms by (simp only: h) (cases r; simp add: e)
qed

lemma prob_ltm_overflow:
  assumes "0 \<le> q" and "q < int (length (difficulty qs))"
    and "q < int (length (discrimination qs))" and "difficulty qs ! nat q \<noteq> []"
    and "disinf (dexp (difficulty qs ! nat q ! 0 + discrimination qs ! nat q * theta))"
  shows "prob_ltm qs theta q = Inr (1 - eps)"
proof -
  from assms(4) have "0 < int (length (difficulty qs ! nat q))" by simp
  then have "vec_at (difficulty qs ! nat q) 0 = Inr (difficulty qs ! nat q ! 0)"
    by (simp add: vec_at_def)
  then show ?thesis
    using assms(1-3,5) by (simp add: prob_ltm_def Let_def)
qed

lemma prob_ltm_range:
  assumes "ltm_item_ok qs question" and "is_finite theta"
  shows "\<exists>p. prob_ltm qs theta question = Inr p \<and> eps \<le> p \<and> p \<le> 1 - eps
           \<and> (disinf (dexp (difficulty qs ! nat question ! 0
                              + discrimination qs ! nat question * theta))
                \<longrightarrow> p = 1 - eps)"
proof -
  let ?x = "difficulty qs ! nat question ! 0 + discrimination qs ! nat question * theta"
  from assms(1) have valid: "0 \<le> question" "question < int (length (difficulty qs))"
    "question < int (length (discrimination qs))" "question < int (length (guessing qs))"
    "difficulty qs ! nat question \<noteq> []"
    and fin: "is_finite (difficulty qs ! nat question ! 0)"
      "is_finite (discrimination qs ! nat question)" "is_finite (guessing qs ! nat question)"
    by (simp_all add: ltm_item_ok_def)
  have "?x \<noteq> NaN" by (rule exponent_not_NaN [OF fin(1,2) assms(2)])
  from dexp_cases [OF this] show ?thesis
  proof
    assume inf: "dexp ?x = PInf"
    then have "prob_ltm qs theta question = Inr (1 - eps)"
      by (intro prob_ltm_overflow valid) simp
    moreover from one_minus_eps_value obtain h where "1 - eps = Fin h" by blast
    then have "1 - eps \<le> 1 - eps" by simp
    ultimately show ?thesis using eps_le_hi by simp
  next
    assume "\<exists>e\<ge>0. dexp ?x = Fin e \<and> rnd e = Fin e"
    then obtain e where e: "0 \<le> e" "dexp ?x = Fin e" "rnd e = Fin e" by blast
    from logistic_value [OF e(1,3)] obtain l where l: "Fin e / (1 + Fin e) = Fin l" by blast
    define r where "r = guessing qs ! nat question + (1 - guessing qs ! nat question) * Fin l"
    have "r \<noteq> NaN" unfolding r_def by (rule raw_not_NaN [OF fin(3)])
    note range = clamp_range [OF this]
    have "prob_ltm qs theta question =
            Inr (if 1 - eps < r then 1 - eps else if r < eps then eps else r)"
      by (rule prob_ltm_eval [OF valid e(2)]) (simp add: r_def l)
    with range e(2) show ?thesis by simp
  qed
qed

lemma calculate_range:
  assumes "is_finite disc" and "is_finite theta" and "is_finite diff"
  shows "eps \<le> calculate disc theta diff \<and> calculate disc theta diff \<le> 1 - eps"
proof -
  let ?x = "diff - disc * theta"
  from one_minus_eps_value obtain h where h: "1 - eps = Fin h" by blast
  from eps_value obtain e0 where e0: "eps = Fin e0" by blast
  from eps_le_hi have e0h: "e0 \<le> h" by (simp only: h) (simp only: e0 less_eq_double.simps)
  have "?x \<noteq> NaN" by (rule exponent_not_NaN [OF assms(3,1,2)])
  from dexp_cases [OF this] show ?thesis
  proof
    assume inf: "dexp ?x = PInf"
    have "\<not> 1 - eps < 1 - eps" "\<not> 1 - eps < eps"
      using e0h by (simp_all only: h) (simp_all add: e0)
    then have "calculate disc theta diff = 1 - eps"
      by (simp add: calculate_def Let_def inf)
    then show ?thesis using eps_le_hi h by simp
  next
    assume "\<exists>e\<ge>0. dexp ?x = Fin e \<and> rnd e = Fin e"
    then obtain e where e: "0 \<le> e" "dexp ?x = Fin e" "rnd e = Fin e" by blast
    from logistic_value [OF e(1,3)] obtain l where l: "Fin e / (1 + Fin e) = Fin l" by blast
    have "calculate disc theta diff =
            (if (if 1 - eps < Fin l then 1 - eps else Fin l) < eps then eps
             else (if 1 - eps < Fin l then 1 - eps else Fin l))"
      by (simp add: calculate_def Let_def e(2) l)
    also have "\<dots> = (if 1 - eps < Fin l then 1 - eps else if Fin l < eps then eps else Fin l)"
      using e0h by (simp only: h) (simp add: e0)
    finally show ?thesis using clamp_range [of "Fin l"] by simp
  qed
qed

text \<open>
  C7, as claimed, fails for a theta that is no number: every comparison with NaN is
  false, so neither clamp applies and NaN is returned, by \<open>prob_ltm\<close> and by the boundary
  function of \<open>prob_grm\<close> alike.  The same happens at an infinite theta when the
  discrimination is zero, and at a finite theta when the guessing parameter is NaN.
\<close>

theorem prob_ltm_nan_counterexample:
  "prob_ltm qs_ltm NaN 0 = Inr NaN \<and> \<not> eps \<le> NaN \<and> \<not> NaN \<le> 1 - eps
   \<and> calculate (Fin 1) NaN (Fin 0) = NaN
   \<and> prob_ltm (qs_ltm\<lparr>discrimination := [Fin 0]\<rparr>) PInf 0 = Inr NaN
   \<and> prob_ltm (qs_ltm\<lparr>guessing := [NaN]\<rparr>) (Fin 0) 0 = Inr NaN"
proof -
  have "prob_ltm qs_ltm NaN 0 = Inr NaN"
    by (simp add: prob_ltm_def qs_ltm_def Let_def)
  moreover have "calculate (Fin 1) NaN (Fin 0) = NaN"
    by (simp add: calculate_def Let_def)
  moreover have "prob_ltm (qs_ltm\<lparr>discrimination := [Fin 0]\<rparr>) PInf 0 = Inr NaN"
    by (simp add: prob_ltm_def qs_ltm_def Let_def)
  moreover have "prob_ltm (qs_ltm\<lparr>guessing := [NaN]\<rparr>) (Fin 0) 0 = Inr NaN"
    by (simp add: prob_ltm_def qs_ltm_def Let_def)
  ultimately show ?thesis by simp
qed

text \<open>
  C7, amended.  For a valid ltm/tpm item whose parameters are finite doubles and a
  finite theta, \<open>prob_ltm\<close> returns a value in \<open>[eps, 1 - eps]\<close>, and exactly \<open>1 - eps\<close>
  when the exponential overflows to infinity; the boundary values that \<open>prob_grm\<close>
  computes with \<open>calculate\<close> from finite arguments lie in the same interval.
\<close>

theorem prob_ltm_within_eps:
  assumes "ltm_item_ok qs question" and "is_finite theta"
    and "is_finite disc" and "is_finite diff"
  shows "(\<exists>p. prob_ltm qs theta question = Inr p \<and> eps \<le> p \<and> p \<le> 1 - eps
           \<and> (disinf (dexp (difficulty qs ! nat question ! 0
                              + discrimination qs ! nat question * theta))
                \<longrightarrow> p = 1 - eps))
       \<and> eps \<le> calculate disc theta diff \<and> calculate disc theta diff \<le> 1 - eps"
  using prob_ltm_range [OF assms(1,2)] calculate_range [OF assms(3,2,4)] by simp

lemma ltm_item_ok_qs_ltm: "ltm_item_ok qs_ltm 0"
  by (simp add: ltm_item_ok_def qs_ltm_def)

theorem prob_ltm_within_eps_witness:
  "ltm_item_ok qs_ltm 0 \<and> is_finite (Fin 2000) \<and> is_finite (Fin 1) \<and> is_finite (Fin 0)
   \<and> prob_ltm qs_ltm (Fin 2000) 0 = Inr (1 - eps)
   \<and> eps \<le> 1 - eps
   \<and> eps \<le> calculate (Fin 1) (Fin 2000) (Fin 0)
   \<and> calculate (Fin 1) (Fin 2000) (Fin 0) \<le> 1 - eps"
proof -
  have over: "disinf (dexp (difficulty qs_ltm ! nat 0 ! 0 + discrimination qs_ltm ! nat 0 * Fin 2000))"
    by (simp add: qs_ltm_def dexp_overflow)
  have fin: "is_finite (Fin 2000)" "is_finite (Fin 1)" "is_finite (Fin 0)" by simp_all
  from prob_ltm_within_eps [OF ltm_item_ok_qs_ltm fin] over
  have "prob_ltm qs_ltm (Fin 2000) 0 = Inr (1 - eps) \<and> eps \<le> 1 - eps
      \<and> eps \<le> calculate (Fin 1) (Fin 2000) (Fin 0)
      \<and> calculate (Fin 1) (Fin 2000) (Fin 0) \<le> 1 - eps"
    by auto
  with ltm_item_ok_qs_ltm fin show ?thesis by simp
qed


section \<open>The shape of the probability sequence\<close>

lemma sum_list_close:
  fixes f g :: "'a \<Rightarrow> real"
  assumes "\<forall>x\<in>set xs. \<bar>f x - g x\<bar> \<le> c"
  shows "\<bar>sum_list (map f xs) - sum_list (map g xs)\<bar> \<le> real (length xs) * c"
  using assms
proof (induction xs)
  case Nil
  then show ?case by simp
next
  case (Cons x xs)
  then have "\<bar>f x - g x\<bar> \<le> c"
    and "\<bar>sum_list (map f xs) - sum_list (map g xs)\<bar> \<le> real (length xs) * c" by simp_all
  then show ?case by (simp add: algebra_simps)
qed

text \<open>A total that is finite has finite summands only.\<close>

lemma plus_finite_cases: "(x::double) + y = Fin c \<Longrightarrow> \<exists>a b. x = Fin a \<and> y = Fin b"
  by (cases x; cases y) simp_all

lemma foldl_plus_finite: "foldl (+) (x::double) ys = Fin d \<Longrightarrow> \<exists>a. x = Fin a"
proof (induction ys arbitrary: x)
  case Nil
  then show ?case by simp
next
  case (Cons y ys)
  then have "\<exists>c. x + y = Fin c" by simp
  then show ?case using plus_finite_cases by blast
qed

text \<open>
  The running total of exponentials: it grows, it exceeds every summand, and it differs
  from the real sum by one rounding for each addition.
\<close>

lemma total_of_masses:
  assumes "0 \<le> a" and "rnd a = Fin a"
    and "\<forall>m\<in>set ms. \<exists>s. m = dexp s"
    and "foldl (+) (Fin a) ms = Fin d"
  shows "a \<le> d \<and> rnd d = Fin d
       \<and> (\<forall>m\<in>set ms. \<exists>e. m = Fin e \<and> 0 \<le> e \<and> e \<le> d)
       \<and> \<bar>d - (a + sum_list (map dval ms))\<bar> \<le> real (length ms) * d / 2 ^ 52"
  using assms
proof (induction ms arbitrary: a)
  case Nil
  then show ?case by simp
next
  case (Cons m ms)
  from Cons.prems(4) have fold: "foldl (+) (Fin a + m) ms = Fin d" by simp
  from foldl_plus_finite [OF this] obtain c where c: "Fin a + m = Fin c" by blast
  from plus_finite_cases [OF this] obtain e where e: "m = Fin e" by blast
  from Cons.prems(3) obtain s where "m = dexp s" by auto
  with e have "s \<noteq> NaN" by auto
  from dexp_cases [OF this] \<open>m = dexp s\<close> e have epos: "0 \<le> e" and erep: "rnd e = Fin e"
    by auto
  from c e have rc: "rnd (a + e) = Fin c" by simp
  from rnd_mono [of a "a + e"] epos Cons.prems(2) rc have ac: "a \<le> c" by simp
  from rnd_mono [of e "a + e"] Cons.prems(1) erep rc have ec: "e \<le> c" by simp
  have cpos: "0 \<le> c" using ac Cons.prems(1) by simp
  have crep: "rnd c = Fin c" by (rule rnd_idem [OF rc])
  have err: "\<bar>c - (a + e)\<bar> \<le> (a + e) / 2 ^ 53"
    by (rule rnd_add_rel_err [OF Cons.prems(1,2) epos erep rc])
  have tail: "\<forall>m\<in>set ms. \<exists>s. m = dexp s" using Cons.prems(3) by simp
  from fold c have "foldl (+) (Fin c) ms = Fin d" by simp
  from Cons.IH [OF cpos crep tail this]
  have ih: "c \<le> d" "rnd d = Fin d" "\<forall>m\<in>set ms. \<exists>e. m = Fin e \<and> 0 \<le> e \<and> e \<le> d"
    "\<bar>d - (c + sum_list (map dval ms))\<bar> \<le> real (length ms) * d / 2 ^ 52"
    by simp_all
  have "(a + e) - (a + e) / 2 ^ 53 \<le> c" using err by linarith
  moreover have "(a + e) / 2 \<le> (a + e) - (a + e) / 2 ^ 53"
  proof -
    define u where "u = (a + e) / 2 ^ 53"
    have "u \<le> (a + e) / 2"
      unfolding u_def using Cons.prems(1) epos by (intro divide_left_mono) simp_all
    then have "(a + e) / 2 \<le> (a + e) - u" by (simp add: field_simps)
    then show ?thesis by (simp only: u_def)
  qed
  ultimately have "(a + e) / 2 \<le> d" using ih(1) by linarith
  then have "(a + e) / 2 ^ 53 \<le> d / 2 ^ 52" by simp
  with err have err': "\<bar>c - (a + e)\<bar> \<le> d / 2 ^ 52" by linarith
  have "\<bar>d - (a + sum_list (map dval (m # ms)))\<bar>
        \<le> \<bar>d - (c + sum_list (map dval ms))\<bar> + \<bar>c - (a + e)\<bar>"
    by (simp add: e)
  also have "\<dots> \<le> real (length ms) * d / 2 ^ 52 + d / 2 ^ 52"
    using ih(4) err' by linarith
  also have "\<dots> = real (length (m # ms)) * d / 2 ^ 52"
    by (simp add: algebra_simps add_divide_distrib)
  finally have total: "\<bar>d - (a + sum_list (map dval (m # ms)))\<bar>
        \<le> real (length (m # ms)) * d / 2 ^ 52" .
  have "\<forall>m'\<in>set (m # ms). \<exists>e. m' = Fin e \<and> 0 \<le> e \<and> e \<le> d"
    using ih(3) e epos ec ih(1) by auto
  with total ih(1,2) ac show ?case by simp
qed

text \<open>The quotient of a mass by the total.\<close>

lemma quotient_value:
  assumes "0 \<le> e" and "e \<le> d" and "0 < d"
  shows "\<exists>p. Fin e / Fin d = Fin p \<and> 0 \<le> p \<and> p \<le> 1 \<and> \<bar>p - e / d\<bar> \<le> 1 / 2 ^ 53"
proof -
  have q: "0 \<le> e / d" "e / d \<le> 1" using assms by simp_all
  then have "\<exists>p. rnd (e / d) = Fin p \<and> 0 \<le> p \<and> p \<le> 1"
    by (intro rnd_between) simp_all
  moreover have "\<exists>p. rnd (e / d) = Fin p \<and> \<bar>p - e / d\<bar> \<le> 1 / 2 ^ 53"
    using q by (intro rnd_err_2) simp
  ultimately show ?thesis using assms(3) by auto
qed

lemma normalised_masses:
  assumes "0 \<le> a" and "rnd a = Fin a"
    and "\<forall>m\<in>set ms. \<exists>s. m = dexp s"
    and "foldl (+) (Fin a) ms = Fin d" and "d \<noteq> 0"
    and ps: "ps = map (\<lambda>m. m / Fin d) (Fin a # ms)"
  shows "(\<forall>p\<in>set ps. Fin 0 \<le> p \<and> p \<le> Fin 1)
       \<and> \<bar>sum_list (map dval ps) - 1\<bar> \<le> real (length ps) / 2 ^ 51"
proof -
  from total_of_masses [OF assms(1-4)]
  have t: "a \<le> d" "\<forall>m\<in>set ms. \<exists>e. m = Fin e \<and> 0 \<le> e \<and> e \<le> d"
    "\<bar>d - (a + sum_list (map dval ms))\<bar> \<le> real (length ms) * d / 2 ^ 52"
    by simp_all
  have dpos: "0 < d" using t(1) assms(1,5) by simp
  let ?ms = "Fin a # ms"
  have each: "\<exists>p. m / Fin d = Fin p \<and> 0 \<le> p \<and> p \<le> 1 \<and> \<bar>p - dval m / d\<bar> \<le> 1 / 2 ^ 53"
    if "m \<in> set ?ms" for m
  proof -
    from that t(1,2) assms(1) obtain e where e: "m = Fin e" "0 \<le> e" "e \<le> d" by auto
    from quotient_value [OF e(2,3) dpos] show ?thesis by (simp add: e(1))
  qed
  have range: "\<forall>p\<in>set (map (\<lambda>m. m / Fin d) ?ms). Fin 0 \<le> p \<and> p \<le> Fin 1"
  proof
    fix p assume "p \<in> set (map (\<lambda>m. m / Fin d) ?ms)"
    then have "p \<in> (\<lambda>m. m / Fin d) ` set ?ms" by (simp only: set_map)
    then obtain m where m: "m \<in> set ?ms" "p = m / Fin d" by blast
    from each [OF m(1)] obtain p' where "m / Fin d = Fin p'" "0 \<le> p'" "p' \<le> 1" by blast
    then show "Fin 0 \<le> p \<and> p \<le> Fin 1" by (simp add: m(2))
  qed
  have "\<forall>m\<in>set ?ms. \<bar>dval (m / Fin d) - dval m / d\<bar> \<le> 1 / 2 ^ 53"
  proof
    fix m assume "m \<in> set ?ms"
    from each [OF this] show "\<bar>dval (m / Fin d) - dval m / d\<bar> \<le> 1 / 2 ^ 53" by auto
  qed
  from sum_list_close [OF this]
  have close: "\<bar>sum_list (map (\<lambda>m. dval (m / Fin d)) ?ms) - sum_list (map (\<lambda>m. dval m / d) ?ms)\<bar>
        \<le> real (length ?ms) * (1 / 2 ^ 53)" .
  have "sum_list (map (\<lambda>m. dval m / d) xs) = sum_list (map dval xs) / d" for xs
    by (induction xs) (simp_all add: add_divide_distrib)
  then have "sum_list (map (\<lambda>m. dval m / d) ?ms) - 1 = (a + sum_list (map dval ms) - d) / d"
    using dpos by (simp add: field_simps)
  moreover have "\<bar>(a + sum_list (map dval ms) - d) / d\<bar> \<le> real (length ms) / 2 ^ 52"
  proof -
    have "\<bar>(a + sum_list (map dval ms) - d) / d\<bar> = \<bar>d - (a + sum_list (map dval ms))\<bar> / d"
      using dpos by (simp add: abs_minus_commute)
    also have "\<dots> \<le> (real (length ms) * d / 2 ^ 52) / d"
      using t(3) dpos by (intro divide_right_mono) simp_all
    also have "\<dots> = real (length ms) / 2 ^ 52" using dpos by simp
    finally show ?thesis .
  qed
  ultimately have "\<bar>sum_list (map (\<lambda>m. dval m / d) ?ms) - 1\<bar> \<le> real (length ms) / 2 ^ 52"
    by simp
  with close have "\<bar>sum_list (map (\<lambda>m. dval (m / Fin d)) ?ms) - 1\<bar>
      \<le> real (length ?ms) * (1 / 2 ^ 53) + real (length ms) / 2 ^ 52"
    by linarith
  also have "\<dots> \<le> real (length ?ms) / 2 ^ 51" by (simp add: field_simps)
  finally have "\<bar>sum_list (map dval (map (\<lambda>m. m / Fin d) ?ms)) - 1\<bar> \<le> real (length ?ms) / 2 ^ 51"
    by (simp add: comp_def)
  moreover have "length ps = length ?ms" by (simp add: ps)
  ultimately show ?thesis using range by (simp only: ps [symmetric])
qed


text \<open>Whatever a clamp returns is in the interval, unless it is NaN.\<close>

lemma one_minus_eps_finite: "1 - eps \<noteq> NaN"
  using one_minus_eps_value by auto

lemma prob_ltm_not_NaN:
  assumes "prob_ltm qs theta question = Inr p" and "p \<noteq> NaN"
  shows "eps \<le> p \<and> p \<le> 1 - eps"
proof -
  from assms(1) obtain dv diff disc where
    r: "vec_at (difficulty qs) question = Inr dv" "vec_at dv 0 = Inr diff"
      "vec_at (discrimination qs) question = Inr disc"
    by (auto simp add: prob_ltm_def bindE_Inr_iff)
  show ?thesis
  proof (cases "disinf (dexp (diff + disc * theta))")
    case True
    with assms(1) r have "p = 1 - eps" by (simp add: prob_ltm_def Let_def)
    moreover from one_minus_eps_value obtain h where "1 - eps = Fin h" by blast
    then have "1 - eps \<le> 1 - eps" by simp
    ultimately show ?thesis using eps_le_hi by simp
  next
    case False
    with assms(1) r obtain guess where
      p: "p = (let result = guess + (1 - guess) * (dexp (diff + disc * theta)
                                / (1 + dexp (diff + disc * theta)))
               in if 1 - eps < result then 1 - eps else if result < eps then eps else result)"
      by (auto simp add: prob_ltm_def Let_def bindE_Inr_iff)
    define res where "res = guess + (1 - guess) * (dexp (diff + disc * theta)
                                / (1 + dexp (diff + disc * theta)))"
    from p have p': "p = (if 1 - eps < res then 1 - eps else if res < eps then eps else res)"
      by (simp add: Let_def res_def)
    have "res \<noteq> NaN" using assms(2) p' by auto
    from clamp_range [OF this] show ?thesis by (simp only: p')
  qed
qed

lemma calculate_not_NaN:
  assumes "calculate disc theta diff \<noteq> NaN"
  shows "eps \<le> calculate disc theta diff \<and> calculate disc theta diff \<le> 1 - eps"
proof -
  define e where "e = dexp (diff - disc * theta)"
  define r1 where "r1 = (if disinf e then 1 - eps else e / (1 + e))"
  from one_minus_eps_value obtain h where h: "1 - eps = Fin h" by blast
  from eps_value obtain e0 where e0: "eps = Fin e0" by blast
  from eps_le_hi have e0h: "e0 \<le> h" by (simp only: h) (simp only: e0 less_eq_double.simps)
  have c: "calculate disc theta diff =
        (if (if 1 - eps < r1 then 1 - eps else r1) < eps then eps
         else (if 1 - eps < r1 then 1 - eps else r1))"
    by (simp add: calculate_def Let_def e_def r1_def)
  also have "\<dots> = (if 1 - eps < r1 then 1 - eps else if r1 < eps then eps else r1)"
    using e0h by (simp only: h) (simp add: e0)
  finally have c': "calculate disc theta diff =
      (if 1 - eps < r1 then 1 - eps else if r1 < eps then eps else r1)" .
  have "r1 \<noteq> NaN" using assms c' by auto
  from clamp_range [OF this] show ?thesis by (simp only: c')
qed

text \<open>
  The differences of consecutive values of a sequence within \<open>[0, 1]\<close> telescope, up to
  one rounding for each difference.
\<close>

lemma differences_telescope:
  assumes "\<forall>x\<in>set (x0 # xs). 0 \<le> x \<and> x \<le> 1"
  shows "(\<forall>m\<in>set (grm_category_masses (map Fin (x0 # xs))). Fin (- 1) \<le> m \<and> m \<le> Fin 1)
       \<and> \<bar>sum_list (map dval (grm_category_masses (map Fin (x0 # xs)))) - (last (x0 # xs) - x0)\<bar>
           \<le> real (length xs) / 2 ^ 53"
  using assms
proof (induction xs arbitrary: x0)
  case Nil
  then show ?case by simp
next
  case (Cons y ys)
  from Cons.prems have b: "0 \<le> x0" "x0 \<le> 1" "0 \<le> y" "y \<le> 1" by simp_all
  from Cons.prems have "\<forall>x\<in>set (y # ys). 0 \<le> x \<and> x \<le> 1" by simp
  from Cons.IH [OF this]
  have ih: "\<forall>m\<in>set (grm_category_masses (map Fin (y # ys))). Fin (- 1) \<le> m \<and> m \<le> Fin 1"
    "\<bar>sum_list (map dval (grm_category_masses (map Fin (y # ys)))) - (last (y # ys) - y)\<bar>
       \<le> real (length ys) / 2 ^ 53"
    by simp_all
  have "\<exists>d. rnd (y - x0) = Fin d \<and> - 1 \<le> d \<and> d \<le> 1"
    using b by (intro rnd_between) simp_all
  moreover have "\<exists>d. rnd (y - x0) = Fin d \<and> \<bar>d - (y - x0)\<bar> \<le> 1 / 2 ^ 53"
    using b by (intro rnd_err_2) simp
  ultimately obtain d where d: "Fin y - Fin x0 = Fin d" "- 1 \<le> d" "d \<le> 1"
    "\<bar>d - (y - x0)\<bar> \<le> 1 / 2 ^ 53"
    by (auto simp add: minus_double_def)
  have masses: "grm_category_masses (map Fin (x0 # y # ys))
                  = Fin d # grm_category_masses (map Fin (y # ys))"
    by (simp add: d(1))
  have "\<bar>sum_list (map dval (grm_category_masses (map Fin (x0 # y # ys))))
          - (last (x0 # y # ys) - x0)\<bar>
        \<le> \<bar>d - (y - x0)\<bar>
          + \<bar>sum_list (map dval (grm_category_masses (map Fin (y # ys)))) - (last (y # ys) - y)\<bar>"
    unfolding masses by simp
  also have "\<dots> \<le> 1 / 2 ^ 53 + real (length ys) / 2 ^ 53" using d(4) ih(2) by linarith
  also have "\<dots> = real (length (y # ys)) / 2 ^ 53" by (simp add: add_divide_distrib)
  finally have "\<bar>sum_list (map dval (grm_category_masses (map Fin (x0 # y # ys))))
          - (last (x0 # y # ys) - x0)\<bar> \<le> real (length (y # ys)) / 2 ^ 53" .
  moreover have "\<forall>m\<in>set (grm_category_masses (map Fin (x0 # y # ys))).
      Fin (- 1) \<le> m \<and> m \<le> Fin 1"
    unfolding masses using ih(1) d(2,3) by simp
  ultimately show ?case by blast
qed

lemma list_of_bounded:
  assumes "\<forall>F\<in>set Fs. \<exists>x. F = Fin x \<and> 0 \<le> x \<and> x \<le> 1"
  shows "\<exists>xs. Fs = map Fin xs \<and> (\<forall>x\<in>set xs. 0 \<le> x \<and> x \<le> 1)"
  using assms
proof (induction Fs)
  case Nil
  then show ?case by simp
next
  case (Cons F Fs)
  then obtain x xs where "F = Fin x" "0 \<le> x" "x \<le> 1" "Fs = map Fin xs"
    "\<forall>x\<in>set xs. 0 \<le> x \<and> x \<le> 1"
    by auto
  then have "F # Fs = map Fin (x # xs) \<and> (\<forall>x\<in>set (x # xs). 0 \<le> x \<and> x \<le> 1)" by simp
  then show ?case by (rule exI [of _ "x # xs"])
qed

lemma prob_grm_success:
  assumes "prob_grm qs theta question = Inr ps"
  shows "ps = grm_padded qs theta question"
proof -
  from assms obtain disc terms where
    r: "vec_at (discrimination qs) question = Inr disc" "vec_at (difficulty qs) question = Inr terms"
    by (auto simp add: prob_grm_def bindE_Inr_iff)
  then have "disc = discrimination qs ! nat question" "terms = difficulty qs ! nat question"
    by (auto simp add: vec_at_def split: if_splits)
  with assms r show ?thesis
    by (auto simp add: prob_grm_def Let_def grm_padded_def split: if_splits)
qed

lemma grm_shape:
  assumes ret: "prob_grm qs theta question = Inr ps" and nan: "NaN \<notin> set ps"
  shows "ps = grm_padded qs theta question
       \<and> (\<forall>F\<in>set (butlast (tl ps)). eps \<le> F \<and> F \<le> 1 - eps)
       \<and> (\<forall>m\<in>set (grm_category_masses ps). Fin (- 1) \<le> m \<and> m \<le> Fin 1)
       \<and> \<bar>sum_list (map dval (grm_category_masses ps)) - 1\<bar> \<le> real (length ps) / 2 ^ 53"
proof -
  let ?d = "discrimination qs ! nat question"
  let ?terms = "difficulty qs ! nat question"
  let ?inner = "map (calculate ?d theta) ?terms"
  note ps = prob_grm_success [OF ret]
  have padded: "ps = 0 # (?inner @ [1])" by (simp add: ps grm_padded_def)
  have inner: "eps \<le> F \<and> F \<le> 1 - eps" if "F \<in> set ?inner" for F
  proof -
    from that obtain b where b: "F = calculate ?d theta b" by auto
    from that have "F \<in> set ps" unfolding padded by simp
    with nan have "F \<noteq> NaN" by auto
    with calculate_not_NaN [of ?d theta b] b show ?thesis by simp
  qed
  from eps_value obtain e0 where e0: "eps = Fin e0" "1 / 2 ^ 26 \<le> e0" by blast
  from one_minus_eps_value obtain h where h: "1 - eps = Fin h" "h \<le> 1" by blast
  have "0 \<le> e0" using e0(2) by (rule order_trans [rotated]) simp
  have "\<exists>x. F = Fin x \<and> 0 \<le> x \<and> x \<le> 1" if "F \<in> set ?inner" for F
  proof -
    have "Fin e0 \<le> F" using inner [OF that] by (simp only: e0(1) [symmetric])
    moreover have "F \<le> Fin h" using inner [OF that] by (simp only: h(1) [symmetric])
    ultimately show ?thesis using \<open>0 \<le> e0\<close> h(2) by (cases F) simp_all
  qed
  then have "\<exists>xs. ?inner = map Fin xs \<and> (\<forall>x\<in>set xs. 0 \<le> x \<and> x \<le> 1)"
    by (intro list_of_bounded) blast
  then obtain xs where xs: "?inner = map Fin xs" "\<forall>x\<in>set xs. 0 \<le> x \<and> x \<le> 1" by blast
  have as_reals: "ps = map Fin (0 # (xs @ [1]))"
    by (simp add: padded xs(1) zero_double_def one_double_def)
  have "\<forall>x\<in>set (0 # (xs @ [1])). 0 \<le> x \<and> x \<le> (1::real)" using xs(2) by simp
  from differences_telescope [OF this]
  have "\<forall>m\<in>set (grm_category_masses ps). Fin (- 1) \<le> m \<and> m \<le> Fin 1"
    and "\<bar>sum_list (map dval (grm_category_masses ps)) - 1\<bar> \<le> real (length (xs @ [1])) / 2 ^ 53"
    unfolding as_reals by simp_all
  moreover have "real (length (xs @ [1])) / 2 ^ 53 \<le> real (length ps) / 2 ^ 53"
    unfolding as_reals by (intro divide_right_mono) simp_all
  moreover have "\<forall>F\<in>set (butlast (tl ps)). eps \<le> F \<and> F \<le> 1 - eps"
    using inner unfolding padded by simp
  ultimately show ?thesis using ps by simp
qed

lemma prob_gpcm_success:
  assumes "prob_gpcm qs theta question = Inr ps"
  shows "0 \<le> question \<and> question < int (length (discrimination qs))
       \<and> question < int (length (difficulty qs))"
  using assms by (auto simp add: prob_gpcm_def bindE_Inr_iff vec_at_def split: if_splits)

lemma gpcm_shape:
  assumes ret: "prob_gpcm qs theta question = Inr ps" and nan: "NaN \<notin> set ps"
  shows "(\<forall>p\<in>set ps. Fin 0 \<le> p \<and> p \<le> Fin 1)
       \<and> \<bar>sum_list (map dval ps) - 1\<bar> \<le> real (length ps) / 2 ^ 51"
proof -
  let ?d = "discrimination qs ! nat question"
  let ?cats = "difficulty qs ! nat question"
  let ?ms = "gpcm_masses qs theta question"
  let ?rest = "map dexp (tl (gpcm_sums ?d theta (?d * theta) ?cats))"
  from prob_gpcm_success [OF ret] have valid: "0 \<le> question"
    "question < int (length (discrimination qs))" "question < int (length (difficulty qs))"
    by simp_all
  have m: "?ms = dexp (?d * theta) # ?rest"
    unfolding gpcm_masses_def Let_def by (subst gpcm_sums_hd) simp
  from ret have D: "\<not> deq (dsum ?ms) 0" "\<not> disinf (dsum ?ms)"
    and ps: "ps = map (\<lambda>m. m / dsum ?ms) ?ms"
    unfolding prob_gpcm_value [OF valid] by (simp_all split: if_splits)
  have "dsum ?ms \<noteq> NaN"
  proof
    assume "dsum ?ms = NaN"
    then have "ps = map (\<lambda>m. NaN) ?ms" unfolding ps by simp
    then have "NaN \<in> set ps" by (simp add: m)
    with nan show False by simp
  qed
  with D obtain d where d: "dsum ?ms = Fin d" "d \<noteq> 0"
    by (cases "dsum ?ms") (simp_all add: zero_double_def)
  then have fold: "foldl (+) (dexp (?d * theta)) ?rest = Fin d" by (simp add: m)
  from foldl_plus_finite [OF this] obtain a where a: "dexp (?d * theta) = Fin a" by blast
  then have "?d * theta \<noteq> NaN" by auto
  from dexp_cases [OF this] a have a0: "0 \<le> a" "rnd a = Fin a" by auto
  have rest: "\<forall>m\<in>set ?rest. \<exists>s. m = dexp s" by auto
  from fold have "foldl (+) (Fin a) ?rest = Fin d" by (simp only: a)
  moreover have "ps = map (\<lambda>m. m / Fin d) (Fin a # ?rest)"
    by (simp only: ps d(1)) (simp only: m a)
  ultimately show ?thesis by (rule normalised_masses [OF a0 rest _ d(2)])
qed


lemma prob_grm_qs_grm: "prob_grm qs_grm (Fin 0) 0 = Inr [Fin 0, Fin (1 / 2), Fin 1]"
  by (simp add: prob_grm_def qs_grm_def Let_def calculate_mid zero_double_def one_double_def)

lemma prob_gpcm_qs_gpcm: "prob_gpcm qs_gpcm (Fin 0) 0 = Inr [Fin (1 / 2), Fin (1 / 2)]"
  by (simp add: prob_gpcm_def qs_gpcm_def qs_grm_def Let_def minus_double_def zero_double_def)

lemma prob_gpcm_qs_gpcm_far: "prob_gpcm qs_gpcm_far (Fin 0) 0 = Inr [Fin 1, Fin 0]"
  by (simp add: prob_gpcm_def qs_gpcm_far_def Let_def minus_double_def zero_double_def
      dexp_underflow)

lemma prob_grm_nan: "prob_grm qs_grm NaN 0 = Inr [Fin 0, NaN, Fin 1]"
proof -
  have "calculate (Fin 1) NaN (Fin 0) = NaN" by (simp add: calculate_def Let_def)
  then show ?thesis
    by (simp add: prob_grm_def qs_grm_def Let_def zero_double_def one_double_def)
qed

lemma prob_gpcm_qs_gpcm_big: "prob_gpcm qs_gpcm_big (Fin 2) 0 = Inr [NaN, NaN]"
proof -
  have up: "Fin (2 ^ 1023) * Fin 2 = PInf"
  proof -
    have "(2::real) ^ 1023 * 2 = 2 ^ 1024" by simp
    then show ?thesis by (simp only: times_double.simps rnd_overflow order_refl)
  qed
  have down: "Fin (2 ^ 1023) * (Fin 2 - Fin 4) = NInf"
  proof -
    have "Fin 2 - Fin 4 = Fin (- 2)" by (simp add: minus_double_def)
    moreover have "(2::real) ^ 1023 * - 2 = - (2 ^ 1024)" by simp
    moreover have "rnd (- (2 ^ 1024)) = NInf" by (simp only: rnd_uminus rnd_overflow order_refl) simp
    ultimately show ?thesis by (simp only: times_double.simps)
  qed
  have fields: "vec_at (discrimination qs_gpcm_big) 0 = Inr (Fin (2 ^ 1023))"
    "vec_at (difficulty qs_gpcm_big) 0 = Inr [Fin 4]"
    by (simp_all add: qs_gpcm_big_def vec_at_def)
  show ?thesis
    unfolding prob_gpcm_def fields bindE.simps Let_def gpcm_loop.simps up down
    by (simp add: zero_double_def)
qed

text \<open>
  C2, as claimed, fails for each family.  For ltm/tpm the sequence is the single
  probability of a correct answer (here \<open>1/2\<close>), which does not sum to 1.  For grm the
  sequence is the padded sequence \<open>[0, F\<^sub>1, \<dots>, F\<^sub>k, 1]\<close> itself, not its differences:
  it starts with 0, below eps, and sums to more than 1.  For gpcm nothing clamps the
  masses to eps: a mass whose exponential underflows is 0.  And every family returns NaN
  without an error: the binary and the graded model at a theta that is NaN, the partial
  credit model also at finite arguments, when its running exponent overflows to
  \<open>inf - inf\<close> (here the discrimination \<open>2 ^ 1023\<close>, the difficulty 4 and \<open>theta = 2\<close>).
\<close>

theorem probability_not_normalised_counterexample:
  "probability qs_ltm (Fin 0) 0 = Inr [Fin (1 / 2)] \<and> sum_list (map dval [Fin (1 / 2)]) = 1 / 2
   \<and> probability qs_grm (Fin 0) 0 = Inr [Fin 0, Fin (1 / 2), Fin 1]
   \<and> sum_list (map dval [Fin 0, Fin (1 / 2), Fin 1]) = 3 / 2 \<and> \<not> eps \<le> Fin 0
   \<and> probability qs_gpcm_far (Fin 0) 0 = Inr [Fin 1, Fin 0]
   \<and> probability qs_ltm NaN 0 = Inr [NaN]
   \<and> probability qs_grm NaN 0 = Inr [Fin 0, NaN, Fin 1]
   \<and> probability qs_gpcm_big (Fin 2) 0 = Inr [NaN, NaN]"
proof -
  have "probability qs_ltm (Fin 0) 0 = Inr [Fin (1 / 2)]"
    by (simp add: probability_def prob_ltm_qs_ltm) (simp add: qs_ltm_def)
  moreover have "probability qs_grm (Fin 0) 0 = Inr [Fin 0, Fin (1 / 2), Fin 1]"
    by (simp add: probability_def prob_grm_qs_grm) (simp add: qs_grm_def)
  moreover have "probability qs_gpcm_far (Fin 0) 0 = Inr [Fin 1, Fin 0]"
    by (simp add: probability_def prob_gpcm_qs_gpcm_far) (simp add: qs_gpcm_far_def)
  moreover have "prob_ltm qs_ltm NaN 0 = Inr NaN"
    by (simp add: prob_ltm_def qs_ltm_def Let_def)
  then have "probability qs_ltm NaN 0 = Inr [NaN]"
    by (simp add: probability_def) (simp add: qs_ltm_def)
  moreover have "probability qs_grm NaN 0 = Inr [Fin 0, NaN, Fin 1]"
    by (simp add: probability_def prob_grm_nan) (simp add: qs_grm_def)
  moreover have "probability qs_gpcm_big (Fin 2) 0 = Inr [NaN, NaN]"
    by (simp add: probability_def prob_gpcm_qs_gpcm_big) (simp add: qs_gpcm_big_def)
  moreover have "\<not> eps \<le> Fin 0"
  proof -
    from eps_value obtain e where e: "eps = Fin e" by blast
    from eps_pos have "0 < e" by (simp only: e less_double.simps)
    then show ?thesis by (simp only: e less_eq_double.simps not_le)
  qed
  ultimately show ?thesis by simp
qed

text \<open>
  C2, amended.  When \<open>probability\<close> returns a sequence that holds no NaN: for ltm/tpm it
  is one value in \<open>[eps, 1 - eps]\<close>; for grm it is the padded sequence, its inner values
  lie in \<open>[eps, 1 - eps]\<close>, and its consecutive differences, the category masses, lie in
  \<open>[- 1, 1]\<close> and sum to 1 within \<open>2 ^ - 53\<close> for each element; for gpcm it lies
  componentwise in \<open>[0, 1]\<close> and sums to 1 within \<open>2 ^ - 51\<close> for each element.
\<close>

theorem probability_shape:
  assumes "probability qs theta question = Inr ps" and "NaN \<notin> set ps"
  shows "(model qs = ''ltm'' \<or> model qs = ''tpm'' \<longrightarrow>
            (\<exists>p. ps = [p] \<and> eps \<le> p \<and> p \<le> 1 - eps))
       \<and> (model qs = ''grm'' \<longrightarrow>
            ps = grm_padded qs theta question
            \<and> (\<forall>F\<in>set (butlast (tl ps)). eps \<le> F \<and> F \<le> 1 - eps)
            \<and> (\<forall>m\<in>set (grm_category_masses ps). Fin (- 1) \<le> m \<and> m \<le> Fin 1)
            \<and> \<bar>sum_list (map dval (grm_category_masses ps)) - 1\<bar> \<le> real (length ps) / 2 ^ 53)
       \<and> (model qs = ''gpcm'' \<longrightarrow>
            (\<forall>p\<in>set ps. Fin 0 \<le> p \<and> p \<le> Fin 1)
            \<and> \<bar>sum_list (map dval ps) - 1\<bar> \<le> real (length ps) / 2 ^ 51)"
proof (intro conjI impI)
  assume m: "model qs = ''ltm'' \<or> model qs = ''tpm''"
  with assms(1) obtain p where p: "prob_ltm qs theta question = Inr p" "ps = [p]"
    by (auto simp add: probability_def bindE_Inr_iff split: if_splits)
  with assms(2) have "p \<noteq> NaN" by auto
  from prob_ltm_not_NaN [OF p(1) this] p(2)
  show "\<exists>p. ps = [p] \<and> eps \<le> p \<and> p \<le> 1 - eps" by simp
next
  assume m: "model qs = ''grm''"
  with assms(1) have "prob_grm qs theta question = Inr ps"
    by (simp add: probability_def split: if_splits)
  note shape = grm_shape [OF this assms(2)]
  from shape show "ps = grm_padded qs theta question" by (rule conjunct1)
  from shape show "\<forall>F\<in>set (butlast (tl ps)). eps \<le> F \<and> F \<le> 1 - eps" by blast
  from shape show "\<forall>m\<in>set (grm_category_masses ps). Fin (- 1) \<le> m \<and> m \<le> Fin 1" by blast
  from shape show "\<bar>sum_list (map dval (grm_category_masses ps)) - 1\<bar> \<le> real (length ps) / 2 ^ 53"
    by blast
next
  assume m: "model qs = ''gpcm''"
  with assms(1) have "prob_gpcm qs theta question = Inr ps"
    by (simp add: probability_def split: if_splits)
  note shape = gpcm_shape [OF this assms(2)]
  from shape show "\<forall>p\<in>set ps. Fin 0 \<le> p \<and> p \<le> Fin 1" by (rule conjunct1)
  from shape show "\<bar>sum_list (map dval ps) - 1\<bar> \<le> real (length ps) / 2 ^ 51" by (rule conjunct2)
qed

theorem probability_shape_witness:
  "probability qs_ltm (Fin 0) 0 = Inr [Fin (1 / 2)] \<and> NaN \<notin> set [Fin (1 / 2)]
   \<and> eps \<le> Fin (1 / 2) \<and> Fin (1 / 2) \<le> 1 - eps
   \<and> probability qs_grm (Fin 0) 0 = Inr [Fin 0, Fin (1 / 2), Fin 1]
   \<and> NaN \<notin> set [Fin 0, Fin (1 / 2), Fin 1]
   \<and> grm_category_masses [Fin 0, Fin (1 / 2), Fin 1] = [Fin (1 / 2), Fin (1 / 2)]
   \<and> \<bar>sum_list (map dval (grm_category_masses [Fin 0, Fin (1 / 2), Fin 1])) - 1\<bar>
       \<le> real (length [Fin 0, Fin (1 / 2), Fin 1]) / 2 ^ 53
   \<and> probability qs_gpcm (Fin 0) 0 = Inr [Fin (1 / 2), Fin (1 / 2)]
   \<and> \<bar>sum_list (map dval [Fin (1 / 2), Fin (1 / 2)]) - 1\<bar>
       \<le> real (length [Fin (1 / 2), Fin (1 / 2)]) / 2 ^ 51"
proof -
  have l: "probability qs_ltm (Fin 0) 0 = Inr [Fin (1 / 2)]"
    by (simp add: probability_def prob_ltm_qs_ltm) (simp add: qs_ltm_def)
  have g: "probability qs_grm (Fin 0) 0 = Inr [Fin 0, Fin (1 / 2), Fin 1]"
    by (simp add: probability_def prob_grm_qs_grm) (simp add: qs_grm_def)
  have p: "probability qs_gpcm (Fin 0) 0 = Inr [Fin (1 / 2), Fin (1 / 2)]"
    by (simp add: probability_def prob_gpcm_qs_gpcm) (simp add: qs_gpcm_def qs_grm_def)
  have n: "NaN \<notin> set [Fin (1 / 2)]" "NaN \<notin> set [Fin 0, Fin (1 / 2), Fin 1]"
    "NaN \<notin> set [Fin (1 / 2), Fin (1 / 2)]"
    by simp_all
  have ml: "model qs_ltm = ''ltm''" and mg: "model qs_grm = ''grm''"
    and mp: "model qs_gpcm = ''gpcm''"
    by (simp_all add: qs_ltm_def qs_grm_def qs_gpcm_def)
  have masses: "grm_category_masses [Fin 0, Fin (1 / 2), Fin 1] = [Fin (1 / 2), Fin (1 / 2)]"
    by (simp add: minus_double_def)
  from probability_shape [OF l n(1)] ml
  have "eps \<le> Fin (1 / 2) \<and> Fin (1 / 2) \<le> 1 - eps" by simp
  moreover from probability_shape [OF g n(2)] mg
  have "\<bar>sum_list (map dval (grm_category_masses [Fin 0, Fin (1 / 2), Fin 1])) - 1\<bar>
       \<le> real (length [Fin 0, Fin (1 / 2), Fin 1]) / 2 ^ 53" by blast
  moreover from probability_shape [OF p n(3)] mp
  have "\<bar>sum_list (map dval [Fin (1 / 2), Fin (1 / 2)]) - 1\<bar>
       \<le> real (length [Fin (1 / 2), Fin (1 / 2)]) / 2 ^ 51" by blast
  ultimately show ?thesis
    using l g p n masses by blast
qed


section \<open>The overloads with a hypothetical answer\<close>

lemma accumulate_snoc:
  "accumulate f (xs @ [y]) acc =
     bindE (accumulate f xs acc) (\<lambda>a. bindE (f y) (\<lambda>v. Inr (a + v)))"
proof (induction xs arbitrary: acc)
  case Nil
  then show ?case by simp
next
  case (Cons x xs)
  then show ?case by (cases "f x") simp_all
qed

lemma accumulate_cong:
  "xs = ys \<Longrightarrow> (\<And>x. x \<in> set ys \<Longrightarrow> f x = g x) \<Longrightarrow> acc = acc' \<Longrightarrow>
     accumulate f xs acc = accumulate g ys acc'"
  by (induction ys arbitrary: xs acc acc') auto

lemma bindE_assoc: "bindE (bindE m f) g = bindE m (\<lambda>x. bindE (f x) g)"
  by (cases m) simp_all

text \<open>What the hypothetical state shares with the real one.\<close>

lemma hyp_fields [simp]:
  "model (hypothetical qs q a) = model qs"
  "discrimination (hypothetical qs q a) = discrimination qs"
  "difficulty (hypothetical qs q a) = difficulty qs"
  "guessing (hypothetical qs q a) = guessing qs"
  "applicable_rows (hypothetical qs q a) = applicable_rows qs @ [q]"
  "length (answers (hypothetical qs q a)) = length (answers qs)"
  by (simp_all add: hypothetical_def)

lemma hyp_answer_new:
  "0 \<le> q \<Longrightarrow> q < int (length (answers qs)) \<Longrightarrow> vec_at (answers (hypothetical qs q a)) q = Inr a"
  by (simp add: hypothetical_def vec_at_def)

lemma hyp_answer_old:
  "0 \<le> q \<Longrightarrow> r \<noteq> q \<Longrightarrow> vec_at (answers (hypothetical qs q a)) r = vec_at (answers qs) r"
  by (auto simp add: hypothetical_def vec_at_def nat_eq_iff)

lemma hyp_prob_ltm [simp]: "prob_ltm (hypothetical qs q a) = prob_ltm qs"
  by (simp add: prob_ltm_def fun_eq_iff cong: if_cong)

lemma hyp_prob_grm [simp]: "prob_grm (hypothetical qs q a) = prob_grm qs"
  by (simp add: prob_grm_def fun_eq_iff)

lemma hyp_prob_gpcm [simp]: "prob_gpcm (hypothetical qs q a) = prob_gpcm qs"
  by (simp add: prob_gpcm_def fun_eq_iff)

lemma hyp_probability [simp]: "probability (hypothetical qs q a) = probability qs"
  by (simp add: probability_def fun_eq_iff)

lemma hyp_derivs_first [simp]:
  "prob_derivs_gpcm_first (hypothetical qs q a) = prob_derivs_gpcm_first qs"
  by (simp add: prob_derivs_gpcm_first_def fun_eq_iff)

lemma hyp_derivs [simp]: "prob_derivs_gpcm (hypothetical qs q a) = prob_derivs_gpcm qs"
  by (simp add: prob_derivs_gpcm_def fun_eq_iff)


lemma wrap32_given: "given_answer v \<Longrightarrow> wrap32 (v - 1) = v - 1"
  by (simp add: given_answer_def wrap32_def)

lemma bindE_cong:
  "m = m' \<Longrightarrow> (\<And>v. m' = Inr v \<Longrightarrow> f v = g v) \<Longrightarrow> bindE m f = bindE m' g"
  by (cases m') simp_all

lemma gpcm_partial_d1LL_read:
  "gpcm_partial_d1LL qs theta r =
     bindE (vec_at (answers qs) r) (\<lambda>a. gpcm_partial_d1LL_aug qs theta r a)"
  by (simp add: gpcm_partial_d1LL_def gpcm_partial_d1LL_aug_def)

lemma gpcm_partial_d2LL_read:
  "gpcm_partial_d2LL qs theta r =
     bindE (vec_at (answers qs) r) (\<lambda>a. gpcm_partial_d2LL_aug qs theta r a)"
  by (simp add: gpcm_partial_d2LL_def gpcm_partial_d2LL_aug_def)

text \<open>
  The plain \<open>grm_partial_d2LL\<close> subtracts after the cast to \<^verbatim>\<open>size_t\<close>, the augmented one
  before it; the plain \<open>likelihood_gpcm\<close> subtracts before the cast, the augmented one after
  it.  The two orders give the same index for every answer but the sentinel.
\<close>

lemma grm_partial_d2LL_read:
  assumes "\<And>v. vec_at (answers qs) r = Inr v \<Longrightarrow> given_answer v"
  shows "grm_partial_d2LL qs theta r =
     bindE (vec_at (answers qs) r) (\<lambda>a. grm_partial_d2LL_aug qs theta r a)"
  unfolding grm_partial_d2LL_def grm_partial_d2LL_aug_def
  by (rule bindE_cong) (simp_all add: wrap32_given [OF assms])

lemma likelihood_gpcm_term:
  assumes "\<And>v. vec_at (answers qs) r = Inr v \<Longrightarrow> given_answer v"
  shows "bindE (vec_at (answers qs) r) (\<lambda>answer.
           bindE (probability qs theta r) (\<lambda>probs.
             bindE (vec_at probs (wrap32 (answer - 1))) (\<lambda>p. Inr (dlog p))))
       = bindE (vec_at (answers qs) r) (\<lambda>a.
           bindE (probability qs theta r) (\<lambda>probs.
             bindE (vec_at probs (a - 1)) (\<lambda>p. Inr (dlog p))))"
  by (rule bindE_cong) (simp_all add: wrap32_given [OF assms])

lemma hyp_gpcm_partial_d1LL_aug [simp]:
  "gpcm_partial_d1LL_aug (hypothetical qs q a) = gpcm_partial_d1LL_aug qs"
  by (simp add: gpcm_partial_d1LL_aug_def fun_eq_iff)

lemma hyp_gpcm_partial_d2LL_aug [simp]:
  "gpcm_partial_d2LL_aug (hypothetical qs q a) = gpcm_partial_d2LL_aug qs"
  by (simp add: gpcm_partial_d2LL_aug_def fun_eq_iff)

lemma hyp_grm_partial_d2LL_aug [simp]:
  "grm_partial_d2LL_aug (hypothetical qs q a) = grm_partial_d2LL_aug qs"
  by (simp add: grm_partial_d2LL_aug_def fun_eq_iff)

text \<open>
  The two overloads of each model-specific function agree, the second derivative of the
  binary models apart; \<open>old\<close> is the fact that the answers of the rows already applicable
  are untouched.
\<close>

lemma overloads_agree:
  assumes "0 \<le> q" and "q < int (length (answers qs))" and "q \<notin> set (applicable_rows qs)"
    and "given_answer a"
    and "\<forall>r\<in>set (applicable_rows qs).
           0 \<le> r \<and> r < int (length (answers qs)) \<longrightarrow> given_answer (answers qs ! nat r)"
  shows "likelihood_ltm_aug qs theta q a = likelihood_ltm (hypothetical qs q a) theta"
    and "likelihood_grm_aug qs theta q a = likelihood_grm (hypothetical qs q a) theta"
    and "likelihood_gpcm_aug qs theta q a = likelihood_gpcm (hypothetical qs q a) theta"
    and "ltm_d1LL_aug qs theta q a = ltm_d1LL (hypothetical qs q a) theta"
    and "grm_d1LL_aug qs theta q a = grm_d1LL (hypothetical qs q a) theta"
    and "gpcm_d1LL_aug qs theta q a = gpcm_d1LL (hypothetical qs q a) theta"
    and "grm_d2LL_aug qs theta q a = grm_d2LL (hypothetical qs q a) theta"
    and "gpcm_d2LL_aug qs theta q a = gpcm_d2LL (hypothetical qs q a) theta"
proof -
  have old: "vec_at (answers (hypothetical qs q a)) r = vec_at (answers qs) r"
    if "r \<in> set (applicable_rows qs)" for r
    using that assms(1,3) by (intro hyp_answer_old) auto
  note new = hyp_answer_new [OF assms(1,2)]
  have given: "given_answer v"
    if "r \<in> set (applicable_rows qs)" and "vec_at (answers qs) r = Inr v" for r v
    using that assms(5) by (auto simp add: vec_at_def split: if_splits)
  have given_new: "given_answer v" if "vec_at (answers (hypothetical qs q a)) q = Inr v" for v
    using that assms(4) by (simp add: new)
  have gpcm_term: "bindE (vec_at (answers qs) r) (\<lambda>answer.
           bindE (probability qs theta r) (\<lambda>probs.
             bindE (vec_at probs (wrap32 (answer - 1))) (\<lambda>p. Inr (dlog p))))
       = bindE (vec_at (answers qs) r) (\<lambda>a.
           bindE (probability qs theta r) (\<lambda>probs.
             bindE (vec_at probs (a - 1)) (\<lambda>p. Inr (dlog p))))"
    if "r \<in> set (applicable_rows qs)" for r
    by (rule likelihood_gpcm_term) (rule given [OF that])
  have grm_read: "grm_partial_d2LL (hypothetical qs q a) theta r =
      bindE (vec_at (answers qs) r) (\<lambda>a. grm_partial_d2LL_aug qs theta r a)"
    if "r \<in> set (applicable_rows qs)" for r
  proof -
    have "grm_partial_d2LL (hypothetical qs q a) theta r =
      bindE (vec_at (answers (hypothetical qs q a)) r)
        (\<lambda>b. grm_partial_d2LL_aug (hypothetical qs q a) theta r b)"
      by (rule grm_partial_d2LL_read) (use given [OF that] old [OF that] in simp)
    then show ?thesis by (simp add: old [OF that])
  qed
  have grm_read_new: "grm_partial_d2LL (hypothetical qs q a) theta q =
      grm_partial_d2LL_aug qs theta q a"
  proof -
    have "grm_partial_d2LL (hypothetical qs q a) theta q =
      bindE (vec_at (answers (hypothetical qs q a)) q)
        (\<lambda>b. grm_partial_d2LL_aug (hypothetical qs q a) theta q b)"
      by (rule grm_partial_d2LL_read) (rule given_new)
    then show ?thesis by (simp add: new)
  qed
  show "likelihood_ltm_aug qs theta q a = likelihood_ltm (hypothetical qs q a) theta"
    unfolding likelihood_ltm_aug_def likelihood_ltm_def
    by (simp add: accumulate_snoc bindE_assoc new old cong: accumulate_cong)
  show "likelihood_grm_aug qs theta q a = likelihood_grm (hypothetical qs q a) theta"
    unfolding likelihood_grm_aug_def likelihood_grm_def
    by (simp add: accumulate_snoc bindE_assoc new old cong: accumulate_cong)
  show "likelihood_gpcm_aug qs theta q a = likelihood_gpcm (hypothetical qs q a) theta"
    unfolding likelihood_gpcm_aug_def likelihood_gpcm_def
    by (simp add: accumulate_snoc bindE_assoc new old gpcm_term wrap32_given [OF assms(4)]
        cong: accumulate_cong)
  show "ltm_d1LL_aug qs theta q a = ltm_d1LL (hypothetical qs q a) theta"
    unfolding ltm_d1LL_aug_def ltm_d1LL_def
    by (simp add: accumulate_snoc bindE_assoc new old cong: accumulate_cong)
  show "grm_d1LL_aug qs theta q a = grm_d1LL (hypothetical qs q a) theta"
    unfolding grm_d1LL_aug_def grm_d1LL_def
    by (simp add: accumulate_snoc bindE_assoc new old Let_def cong: accumulate_cong)
  show "gpcm_d1LL_aug qs theta q a = gpcm_d1LL (hypothetical qs q a) theta"
    unfolding gpcm_d1LL_aug_def gpcm_d1LL_def gpcm_partial_d1LL_read
    by (simp add: accumulate_snoc bindE_assoc new old cong: accumulate_cong)
  show "grm_d2LL_aug qs theta q a = grm_d2LL (hypothetical qs q a) theta"
    unfolding grm_d2LL_aug_def grm_d2LL_def
    by (simp add: accumulate_snoc bindE_assoc new grm_read grm_read_new Let_def
        cong: accumulate_cong)
  show "gpcm_d2LL_aug qs theta q a = gpcm_d2LL (hypothetical qs q a) theta"
    unfolding gpcm_d2LL_aug_def gpcm_d2LL_def gpcm_partial_d2LL_read
    by (simp add: accumulate_snoc bindE_assoc new old cong: accumulate_cong)
qed

lemma rnd_pow2: "n \<le> 1023 \<Longrightarrow> rnd (2 ^ n) = Fin (2 ^ n)"
proof -
  assume n: "n \<le> 1023"
  have "(2::real) ^ n < 2 ^ 1024" using n by (intro power_strict_increasing) simp_all
  then have "of_int 1 * 2 powr of_int (int n) < (2::real) ^ 1024"
    by (simp only: two_powr_pos_power of_int_1 mult_1)
  then have "rnd (of_int 1 * 2 powr of_int (int n)) = Fin (of_int 1 * 2 powr of_int (int n))"
    by (intro rnd_exact_pos) simp_all
  then show ?thesis by (simp only: two_powr_pos_power of_int_1 mult_1)
qed

text \<open>
  C6, as claimed, fails for the second derivative of the binary models.  The plain
  \<open>ltm_d2LL\<close> multiplies the squares \<^verbatim>\<open>pow(disc, 2) * pow(lambda, 2)\<close>, the augmented one
  squares the product \<^verbatim>\<open>pow(disc * lambda, 2)\<close>; the two are rounded differently.  With
  the discrimination \<open>2 ^ 512\<close>, at \<open>theta = 0\<close> where \<open>lambda = 1/2\<close>, the square of the
  discrimination overflows and the plain overload returns minus infinity, while the square
  of the product is \<open>2 ^ 1022\<close> and the augmented overload returns \<open>- 2 ^ 1022\<close>.
\<close>

theorem ltm_d2LL_overloads_differ_counterexample:
  "0 \<notin> set (applicable_rows qs_steep) \<and> given_answer 1
   \<and> d2LL_aug qs_steep (Fin 0) False pr_std 0 1 = Inr (Fin (- (2 ^ 1022)))
   \<and> d2LL (hypothetical qs_steep 0 1) (Fin 0) False pr_std = Inr NInf"
proof -
  have p: "prob_ltm qs_steep (Fin 0) 0 = Inr (Fin (1 / 2))"
    by (rule prob_ltm_at_zero [where d = "2 ^ 512"]) (simp_all add: qs_steep_def)
  have lam: "(Fin (1 / 2) - Fin 0) / (1 - Fin 0) = Fin (1 / 2)"
    "(1 - Fin (1 / 2)) / Fin (1 / 2) = Fin 1"
    by (simp_all add: one_double_def minus_double_def)
  have m: "model qs_steep = ''ltm''" "applicable_rows qs_steep = []"
    by (simp_all add: qs_steep_def)
  note pw = rnd_pow2 [of 511, simplified] rnd_pow2 [of 1022, simplified]
  have aug: "ltm_d2LL_aug qs_steep (Fin 0) 0 1 = Inr (Fin (- (2 ^ 1022)))"
    unfolding ltm_d2LL_aug_def
    by (simp add: m p Let_def) (simp add: qs_steep_def lam dpow2_def pw zero_double_def)
  have plain: "ltm_d2LL (hypothetical qs_steep 0 1) (Fin 0) = Inr NInf"
    unfolding ltm_d2LL_def
    by (simp add: m p Let_def) (simp add: qs_steep_def lam dpow2_def rnd_overflow zero_double_def)
  have "d2LL_aug qs_steep (Fin 0) False pr_std 0 1 = Inr (Fin (- (2 ^ 1022)))"
    by (simp add: d2LL_aug_def m aug)
  moreover have "d2LL (hypothetical qs_steep 0 1) (Fin 0) False pr_std = Inr NInf"
    by (simp add: d2LL_def m plain Let_def)
  ultimately show ?thesis by (simp add: m given_answer_def)
qed

text \<open>
  C6, amended.  For a valid item \<open>q\<close> that is not in \<open>applicable_rows\<close> and an answer \<open>a\<close>,
  where \<open>a\<close> and the answers of the applicable items are given answers, the overloads of
  \<open>likelihood\<close> and \<open>d1LL\<close> that take the pair \<open>(q, a)\<close> return what the plain overloads
  return on the state with \<open>q\<close> appended to \<open>applicable_rows\<close> and \<open>answers[q] = a\<close>, and so
  do the overloads of \<open>d2LL\<close> for every model tag but ltm and tpm; this covers the errors
  they raise.
\<close>

theorem augmented_overloads_agree:
  assumes "0 \<le> q" and "q < int (length (answers qs))" and "q \<notin> set (applicable_rows qs)"
    and "given_answer a"
    and "\<forall>r\<in>set (applicable_rows qs).
           0 \<le> r \<and> r < int (length (answers qs)) \<longrightarrow> given_answer (answers qs ! nat r)"
  shows "likelihood_aug qs theta q a = likelihood (hypothetical qs q a) theta
       \<and> d1LL_aug qs theta use_prior pr q a = d1LL (hypothetical qs q a) theta use_prior pr
       \<and> (model qs \<noteq> ''ltm'' \<and> model qs \<noteq> ''tpm'' \<longrightarrow>
            d2LL_aug qs theta use_prior pr q a = d2LL (hypothetical qs q a) theta use_prior pr)"
  by (simp add: likelihood_aug_def likelihood_def d1LL_aug_def d1LL_def d2LL_aug_def d2LL_def
      overloads_agree [OF assms] Let_def)

theorem augmented_overloads_agree_witness:
  "(0::int) \<le> 1 \<and> 1 < int (length (answers qs_grm_two))
   \<and> 1 \<notin> set (applicable_rows qs_grm_two) \<and> given_answer 1
   \<and> applicable_rows qs_grm_two = [0] \<and> given_answer (answers qs_grm_two ! nat 0)
   \<and> model qs_grm_two \<noteq> ''ltm'' \<and> model qs_grm_two \<noteq> ''tpm''
   \<and> likelihood_aug qs_grm_two (Fin 0) 1 1 = likelihood (hypothetical qs_grm_two 1 1) (Fin 0)
   \<and> d1LL_aug qs_grm_two (Fin 0) True pr_std 1 1
       = d1LL (hypothetical qs_grm_two 1 1) (Fin 0) True pr_std
   \<and> d2LL_aug qs_grm_two (Fin 0) True pr_std 1 1
       = d2LL (hypothetical qs_grm_two 1 1) (Fin 0) True pr_std"
proof -
  have v: "(0::int) \<le> 1" "1 < int (length (answers qs_grm_two))"
    "1 \<notin> set (applicable_rows qs_grm_two)" "given_answer 1"
    "\<forall>r\<in>set (applicable_rows qs_grm_two).
         0 \<le> r \<and> r < int (length (answers qs_grm_two))
           \<longrightarrow> given_answer (answers qs_grm_two ! nat r)"
    by (simp_all add: qs_grm_two_def given_answer_def)
  have r: "applicable_rows qs_grm_two = [0]" "given_answer (answers qs_grm_two ! nat 0)"
    by (simp_all add: qs_grm_two_def given_answer_def)
  have m: "model qs_grm_two \<noteq> ''ltm''" "model qs_grm_two \<noteq> ''tpm''"
    by (simp_all add: qs_grm_two_def)
  from augmented_overloads_agree [OF v, of "Fin 0" True pr_std] m v(1-4) r
  show ?thesis by simp
qed

end
